theory Spec2Isabelle
  imports Main
begin

section \<open>Data model of the rule lister (src/cli/list-rules.ts)\<close>

text \<open>
  \<^verbatim>\<open>type RuleSeverity = 'off' | 'warn' | 'error' | 0 | 1 | 2\<close>.
  The three string literals and the three numbers are six different JavaScript values:
  the strict comparison \<^verbatim>\<open>!==\<close> of the source is inequality of this datatype.
\<close>

datatype RuleSeverity = Str_off | Str_warn | Str_error | Num_0 | Num_1 | Num_2

text \<open>
  The values a rule's \<^verbatim>\<open>options: unknown[]\<close> can hold, as far as \<^verbatim>\<open>JSON.stringify\<close>
  tells them apart: \<^verbatim>\<open>null\<close>, \<^verbatim>\<open>undefined\<close> (functions and symbols serialise like it),
  booleans, integer numbers, BigInts, strings, arrays, and plain objects as their own
  enumerable properties in enumeration order. \<open>JNumber n\<close> stands for a number of
  JavaScript when \<open>n\<close> is at most \<open>2\<^sup>5\<^sup>3 - 1\<close> in magnitude: those integers a double holds
  exactly and \<^verbatim>\<open>JSON.stringify\<close> prints in plain decimal. Outside the model are the
  fractions, \<^verbatim>\<open>NaN\<close> and the infinities (the last three are written \<^verbatim>\<open>null\<close>), objects
  with a \<^verbatim>\<open>toJSON\<close> method or with getters, and an object that contains itself (on
  which \<^verbatim>\<open>JSON.stringify\<close> throws): values are finite trees.
\<close>

datatype jsvalue =
    JNull
  | JUndefined
  | JBool bool
  | JNumber int
  | JBigInt int
  | JString string
  | JArray "jsvalue list"
  | JObject "(string \<times> jsvalue) list"

text \<open>\<^verbatim>\<open>type RuleConfig = RuleSeverity | [RuleSeverity, ...unknown[]]\<close>: a bare severity, or
  an array whose element 0 is the severity and whose tail holds the options.\<close>

datatype RuleConfig = Bare RuleSeverity | Tuple RuleSeverity "jsvalue list"

record RuleData =
  severity :: RuleSeverity
  options :: "jsvalue list"
  source :: string

text \<open>\<^verbatim>\<open>interface Config\<close>: only \<^verbatim>\<open>rules?\<close> is read by the code modelled here. A
  \<^verbatim>\<open>Record<string, RuleConfig>\<close> is the list of its entries as \<^verbatim>\<open>Object.entries\<close>
  enumerates them.\<close>

record Config =
  rules :: "(string \<times> RuleConfig) list option"

datatype DiffStatus = Added | Removed | Different | Same

record RuleDiff =
  name :: string
  status :: DiffStatus
  localSeverity :: "RuleSeverity option"
  functypeSeverity :: "RuleSeverity option"
  localOptions :: "jsvalue list option"
  functypeOptions :: "jsvalue list option"

text \<open>
  A \<^verbatim>\<open>Map<string, RuleData>\<close> is the list of its entries in insertion order; the keys of
  a Map are pairwise different. \<^verbatim>\<open>get\<close> is the lookup (the first entry of the key),
  \<^verbatim>\<open>keys()\<close> the keys in order, \<^verbatim>\<open>set\<close> replaces the value of a key that is present
  and appends a new key at the end.
\<close>

type_synonym RuleMap = "(string \<times> RuleData) list"

definition map_get :: "RuleMap \<Rightarrow> string \<Rightarrow> RuleData option" where
  "map_get m k = map_of m k"

definition map_keys :: "RuleMap \<Rightarrow> string list" where
  "map_keys m = map fst m"

fun map_set :: "string \<Rightarrow> RuleData \<Rightarrow> RuleMap \<Rightarrow> RuleMap" where
  "map_set k v [] = [(k, v)]"
| "map_set k v ((k', v') # m) = (if k' = k then (k, v) # m else (k', v') # map_set k v m)"

text \<open>\<^verbatim>\<open>new Set(xs)\<close>: the elements are added one by one; one that is already there is
  not added again, so the first occurrence fixes the position.\<close>

definition set_add :: "'a list \<Rightarrow> 'a \<Rightarrow> 'a list" where
  "set_add s x = (if x \<in> set s then s else s @ [x])"

definition new_Set :: "'a list \<Rightarrow> 'a list" where
  "new_Set xs = foldl set_add [] xs"

section \<open>Extraction of the rules of a configuration\<close>

definition startsWith :: "string \<Rightarrow> string \<Rightarrow> bool" where
  "startsWith s p = (take (length p) s = p)"

definition getRuleSource :: "string \<Rightarrow> string" where
  "getRuleSource ruleName =
     (if startsWith ruleName ''functional/'' then ''eslint-plugin-functional''
      else if startsWith ruleName ''@typescript-eslint/'' then ''@typescript-eslint/eslint-plugin''
      else ''eslint (core)'')"

text \<open>The body of the \<^verbatim>\<open>forEach\<close> of \<^verbatim>\<open>extractRules\<close>: \<^verbatim>\<open>Array.isArray(ruleConfig)\<close>
  separates the two forms of a declaration; \<^verbatim>\<open>ruleConfig.slice(1)\<close> is the tail.\<close>

fun extract_entry :: "RuleMap \<Rightarrow> string \<times> RuleConfig \<Rightarrow> RuleMap" where
  "extract_entry rs (ruleName, ruleConfig) =
     (let severity = (case ruleConfig of Bare s \<Rightarrow> s | Tuple s rest \<Rightarrow> s);
          options = (case ruleConfig of Bare s \<Rightarrow> [] | Tuple s rest \<Rightarrow> rest)
      in map_set ruleName
           \<lparr>severity = severity, options = options, source = getRuleSource ruleName\<rparr> rs)"

definition extractRules :: "'a Config_scheme \<Rightarrow> RuleMap" where
  "extractRules config =
     (case rules config of
        None \<Rightarrow> []
      | Some entries \<Rightarrow> foldl extract_entry [] entries)"

text \<open>\<^verbatim>\<open>formatSeverity\<close>: \<^verbatim>\<open>severityMap[String(severity)] || String(severity)\<close>; every
  value of the type is a key of the table.\<close>

fun formatSeverity :: "RuleSeverity \<Rightarrow> string" where
  "formatSeverity Num_0 = ''off''"
| "formatSeverity Num_1 = ''warn''"
| "formatSeverity Num_2 = ''error''"
| "formatSeverity Str_off = ''off''"
| "formatSeverity Str_warn = ''warn''"
| "formatSeverity Str_error = ''error''"

section \<open>\<^verbatim>\<open>JSON.stringify\<close>\<close>

text \<open>The only exception \<^verbatim>\<open>JSON.stringify\<close> raises on the values of \<^typ>\<open>jsvalue\<close>.\<close>

datatype error = TypeError

definition hex_digit :: "nat \<Rightarrow> char" where
  "hex_digit n = ''0123456789abcdef'' ! (n mod 16)"

text \<open>\<^verbatim>\<open>QuoteJSONString\<close>: the quote and the backslash are escaped, the control
  characters have a short escape or the form \<^verbatim>\<open>\u00XX\<close>.\<close>

definition quote_char :: "char \<Rightarrow> string" where
  "quote_char c =
     (if c = CHR 0x22 then [CHR 0x5C, CHR 0x22]
      else if c = CHR 0x5C then [CHR 0x5C, CHR 0x5C]
      else if c = CHR 0x08 then [CHR 0x5C, CHR ''b'']
      else if c = CHR 0x09 then [CHR 0x5C, CHR ''t'']
      else if c = CHR 0x0A then [CHR 0x5C, CHR ''n'']
      else if c = CHR 0x0C then [CHR 0x5C, CHR ''f'']
      else if c = CHR 0x0D then [CHR 0x5C, CHR ''r'']
      else if (of_char c :: nat) < 32
        then [CHR 0x5C, CHR ''u'', CHR ''0'', CHR ''0'',
              hex_digit (of_char c div 16), hex_digit (of_char c)]
      else [c])"

definition QuoteJSONString :: "string \<Rightarrow> string" where
  "QuoteJSONString s = [CHR 0x22] @ concat (map quote_char s) @ [CHR 0x22]"

fun show_nat :: "nat \<Rightarrow> string" where
  "show_nat n =
     (if n < 10 then [''0123456789'' ! n]
      else show_nat (n div 10) @ [''0123456789'' ! (n mod 10)])"

declare show_nat.simps [simp del]

definition show_int :: "int \<Rightarrow> string" where
  "show_int i = (if i < 0 then ''-'' @ show_nat (nat (- i)) else show_nat (nat i))"

fun join :: "string list \<Rightarrow> string" where
  "join [] = []"
| "join [s] = s"
| "join (s # t # ss) = s @ '','' @ join (t # ss)"

text \<open>
  \<^verbatim>\<open>SerializeJSONProperty\<close> gives a string, or \<^verbatim>\<open>undefined\<close> (\<open>None\<close>) for a value that
  has no JSON form, or throws. In an array a value without JSON form is written
  \<^verbatim>\<open>null\<close>; in an object its property is left out. Elements and properties are
  serialised from left to right, and the first exception ends the call.
\<close>

fun SerializeJSONProperty :: "jsvalue \<Rightarrow> error + string option"
  and SerializeJSONArray :: "jsvalue list \<Rightarrow> error + string list"
  and SerializeJSONObject :: "(string \<times> jsvalue) list \<Rightarrow> error + string list"
where
  "SerializeJSONProperty JNull = Inr (Some ''null'')"
| "SerializeJSONProperty JUndefined = Inr None"
| "SerializeJSONProperty (JBool b) = Inr (Some (if b then ''true'' else ''false''))"
| "SerializeJSONProperty (JNumber n) = Inr (Some (show_int n))"
| "SerializeJSONProperty (JBigInt n) = Inl TypeError"
| "SerializeJSONProperty (JString s) = Inr (Some (QuoteJSONString s))"
| "SerializeJSONProperty (JArray vs) =
     (case SerializeJSONArray vs of
        Inl e \<Rightarrow> Inl e
      | Inr parts \<Rightarrow> Inr (Some (''['' @ join parts @ '']'')))"
| "SerializeJSONProperty (JObject ps) =
     (case SerializeJSONObject ps of
        Inl e \<Rightarrow> Inl e
      | Inr parts \<Rightarrow> Inr (Some (''{'' @ join parts @ ''}'')))"
| "SerializeJSONArray [] = Inr []"
| "SerializeJSONArray (v # vs) =
     (case SerializeJSONProperty v of
        Inl e \<Rightarrow> Inl e
      | Inr r \<Rightarrow>
          (case SerializeJSONArray vs of
             Inl e \<Rightarrow> Inl e
           | Inr parts \<Rightarrow> Inr ((case r of None \<Rightarrow> ''null'' | Some s \<Rightarrow> s) # parts)))"
| "SerializeJSONObject [] = Inr []"
| "SerializeJSONObject ((k, v) # ps) =
     (case SerializeJSONProperty v of
        Inl e \<Rightarrow> Inl e
      | Inr r \<Rightarrow>
          (case SerializeJSONObject ps of
             Inl e \<Rightarrow> Inl e
           | Inr parts \<Rightarrow>
               Inr ((case r of None \<Rightarrow> [] | Some s \<Rightarrow> [QuoteJSONString k @ '':'' @ s]) @ parts)))"

text \<open>\<^verbatim>\<open>JSON.stringify(options)\<close>: the argument of the differ is always an array.\<close>

definition JSON_stringify :: "jsvalue list \<Rightarrow> error + string option" where
  "JSON_stringify opts = SerializeJSONProperty (JArray opts)"

section \<open>\<^verbatim>\<open>Array.prototype.sort\<close> with a comparator\<close>

text \<open>
  The sort of an array is stable: of two elements the comparator does not put apart
  (a result \<open>\<le> 0\<close> for the earlier against the later) the earlier stays first. The
  insertion sort below is the stable sort by a comparator \<open>cmp\<close>.
\<close>

fun insert_by :: "('a \<Rightarrow> 'a \<Rightarrow> int) \<Rightarrow> 'a \<Rightarrow> 'a list \<Rightarrow> 'a list" where
  "insert_by cmp x [] = [x]"
| "insert_by cmp x (y # ys) =
     (if cmp x y \<le> 0 then x # y # ys else y # insert_by cmp x ys)"

definition array_sort :: "('a \<Rightarrow> 'a \<Rightarrow> int) \<Rightarrow> 'a list \<Rightarrow> 'a list" where
  "array_sort cmp xs = foldr (insert_by cmp) xs []"

section \<open>The differ: \<^verbatim>\<open>compareRules\<close>\<close>

text \<open>
  The callback of \<^verbatim>\<open>allRules.forEach\<close>: it pushes at most one entry on \<^verbatim>\<open>diffs\<close>. A
  \<^verbatim>\<open>RuleData\<close> object is truthy, so \<^verbatim>\<open>!localRule\<close> holds exactly when \<^verbatim>\<open>get\<close> found
  nothing. Both calls of \<^verbatim>\<open>JSON.stringify\<close> are made, the local one first, before the
  results are compared.
\<close>

definition visit_rule ::
  "RuleMap \<Rightarrow> RuleMap \<Rightarrow> RuleDiff list \<Rightarrow> string \<Rightarrow> error + RuleDiff list" where
  "visit_rule localRules functypeRules diffs ruleName =
     (case (map_get localRules ruleName, map_get functypeRules ruleName) of
        (None, Some functypeRule) \<Rightarrow>
          Inr (diffs @ [\<lparr>name = ruleName, status = Added,
                         localSeverity = None,
                         functypeSeverity = Some (severity functypeRule),
                         localOptions = None,
                         functypeOptions = Some (options functypeRule)\<rparr>])
      | (Some localRule, None) \<Rightarrow>
          Inr (diffs @ [\<lparr>name = ruleName, status = Removed,
                         localSeverity = Some (severity localRule),
                         functypeSeverity = None,
                         localOptions = Some (options localRule),
                         functypeOptions = None\<rparr>])
      | (Some localRule, Some functypeRule) \<Rightarrow>
          (case JSON_stringify (options localRule) of
             Inl e \<Rightarrow> Inl e
           | Inr localJson \<Rightarrow>
               (case JSON_stringify (options functypeRule) of
                  Inl e \<Rightarrow> Inl e
                | Inr functypeJson \<Rightarrow>
                    (let severityDifferent = (severity localRule \<noteq> severity functypeRule);
                         optionsDifferent = (localJson \<noteq> functypeJson)
                     in if severityDifferent \<or> optionsDifferent
                        then Inr (diffs @ [\<lparr>name = ruleName, status = Different,
                                            localSeverity = Some (severity localRule),
                                            functypeSeverity = Some (severity functypeRule),
                                            localOptions = Some (options localRule),
                                            functypeOptions = Some (options functypeRule)\<rparr>])
                        else Inr (diffs @ [\<lparr>name = ruleName, status = Same,
                                            localSeverity = Some (severity localRule),
                                            functypeSeverity = Some (severity functypeRule),
                                            localOptions = None,
                                            functypeOptions = None\<rparr>]))))
      | (None, None) \<Rightarrow> Inr diffs)"

fun forEach_rule ::
  "RuleMap \<Rightarrow> RuleMap \<Rightarrow> RuleDiff list \<Rightarrow> string list \<Rightarrow> error + RuleDiff list" where
  "forEach_rule localRules functypeRules diffs [] = Inr diffs"
| "forEach_rule localRules functypeRules diffs (ruleName # rest) =
     (case visit_rule localRules functypeRules diffs ruleName of
        Inl e \<Rightarrow> Inl e
      | Inr diffs' \<Rightarrow> forEach_rule localRules functypeRules diffs' rest)"

text \<open>
  \<^verbatim>\<open>compareRules\<close>. \<^verbatim>\<open>String.prototype.localeCompare\<close> is the host's collation (its
  result depends on the locale the process runs in), so it is the parameter
  \<open>localeCompare\<close> of the model.
\<close>

definition compareRules ::
  "(string \<Rightarrow> string \<Rightarrow> int) \<Rightarrow> RuleMap \<Rightarrow> RuleMap \<Rightarrow> error + RuleDiff list" where
  "compareRules localeCompare localRules functypeRules =
     (let allRules = new_Set (map_keys localRules @ map_keys functypeRules)
      in case forEach_rule localRules functypeRules [] allRules of
           Inl e \<Rightarrow> Inl e
         | Inr diffs \<Rightarrow> Inr (array_sort (\<lambda>a b. localeCompare (name a) (name b)) diffs))"

section \<open>The differ with its objects in a store\<close>






section \<open>Comparators on rule names\<close>

text \<open>
  Two comparators for the parameter \<open>localeCompare\<close>. Both compare character by
  character by a rank \<open>k\<close> of the characters, a shorter string before its extensions.
  \<open>ordinal_compare\<close> ranks a character by its code (the ordinal comparison);
  \<open>caseless_compare\<close> ranks a capital letter with its small letter, which is how a
  collation puts \<^verbatim>\<open>a\<close> before \<^verbatim>\<open>B\<close> where the codes put \<^verbatim>\<open>B\<close> (66) before \<^verbatim>\<open>a\<close> (97).
\<close>

fun compare_by :: "(char \<Rightarrow> nat) \<Rightarrow> string \<Rightarrow> string \<Rightarrow> int" where
  "compare_by k [] [] = 0"
| "compare_by k [] (y # ys) = - 1"
| "compare_by k (x # xs) [] = 1"
| "compare_by k (x # xs) (y # ys) =
     (if k x < k y then - 1 else if k y < k x then 1 else compare_by k xs ys)"

definition ordinal_compare :: "string \<Rightarrow> string \<Rightarrow> int" where
  "ordinal_compare = compare_by of_char"

definition letter_rank :: "char \<Rightarrow> nat" where
  "letter_rank c = (let n = of_char c in if 65 \<le> n \<and> n \<le> 90 then n + 32 else n)"

definition caseless_compare :: "string \<Rightarrow> string \<Rightarrow> int" where
  "caseless_compare = compare_by letter_rank"

text \<open>A comparator that orders all strings: any two are comparable, and it is transitive.\<close>

definition consistent_comparator :: "(string \<Rightarrow> string \<Rightarrow> int) \<Rightarrow> bool" where
  "consistent_comparator cmp \<longleftrightarrow>
     (\<forall>a b. cmp a b \<le> 0 \<or> cmp b a \<le> 0) \<and>
     (\<forall>a b c. cmp a b \<le> 0 \<longrightarrow> cmp b c \<le> 0 \<longrightarrow> cmp a c \<le> 0)"

definition sorted_by_name :: "(string \<Rightarrow> string \<Rightarrow> int) \<Rightarrow> RuleDiff list \<Rightarrow> bool" where
  "sorted_by_name cmp ds = sorted_wrt (\<lambda>a b. cmp (name a) (name b) \<le> 0) ds"

section \<open>Notions the properties of the differ are stated with\<close>

text \<open>The entry of a rule name in a diff.\<close>

definition diff_of :: "RuleDiff list \<Rightarrow> string \<Rightarrow> RuleDiff option" where
  "diff_of ds n = find (\<lambda>d. name d = n) ds"

text \<open>The entry read from the other side: local and reference fields change places,
  and so do \<open>Added\<close> and \<open>Removed\<close>.\<close>

fun swap_status :: "DiffStatus \<Rightarrow> DiffStatus" where
  "swap_status Added = Removed"
| "swap_status Removed = Added"
| "swap_status Different = Different"
| "swap_status Same = Same"

definition mirror :: "RuleDiff \<Rightarrow> RuleDiff" where
  "mirror d = \<lparr>name = name d, status = swap_status (status d),
                localSeverity = functypeSeverity d, functypeSeverity = localSeverity d,
                localOptions = functypeOptions d, functypeOptions = localOptions d\<rparr>"

text \<open>A value that holds no BigInt, at any depth.\<close>

fun no_BigInt :: "jsvalue \<Rightarrow> bool"
  and no_BigInt_list :: "jsvalue list \<Rightarrow> bool"
  and no_BigInt_props :: "(string \<times> jsvalue) list \<Rightarrow> bool"
where
  "no_BigInt JNull = True"
| "no_BigInt JUndefined = True"
| "no_BigInt (JBool b) = True"
| "no_BigInt (JNumber n) = True"
| "no_BigInt (JBigInt n) = False"
| "no_BigInt (JString s) = True"
| "no_BigInt (JArray vs) = no_BigInt_list vs"
| "no_BigInt (JObject ps) = no_BigInt_props ps"
| "no_BigInt_list [] = True"
| "no_BigInt_list (v # vs) = (no_BigInt v \<and> no_BigInt_list vs)"
| "no_BigInt_props [] = True"
| "no_BigInt_props ((k, v) # ps) = (no_BigInt v \<and> no_BigInt_props ps)"

text \<open>The options the differ serialises are those of the rules that both mappings
  declare; \<open>stringifiable\<close> says that none of them holds a BigInt.\<close>

definition both_stringifiable :: "RuleMap \<Rightarrow> RuleMap \<Rightarrow> string \<Rightarrow> bool" where
  "both_stringifiable localRules functypeRules n =
     (case (map_get localRules n, map_get functypeRules n) of
        (Some l, Some f) \<Rightarrow> no_BigInt_list (options l) \<and> no_BigInt_list (options f)
      | _ \<Rightarrow> True)"

definition stringifiable :: "RuleMap \<Rightarrow> RuleMap \<Rightarrow> bool" where
  "stringifiable localRules functypeRules =
     list_all (both_stringifiable localRules functypeRules) (map_keys localRules)"

text \<open>What the callback pushes for one rule name when no serialisation throws.\<close>

definition pushed :: "RuleMap \<Rightarrow> RuleMap \<Rightarrow> string \<Rightarrow> RuleDiff list" where
  "pushed localRules functypeRules n =
     (case visit_rule localRules functypeRules [] n of Inl e \<Rightarrow> [] | Inr ds \<Rightarrow> ds)"

text \<open>A rule's data without its provenance label.\<close>

definition without_source :: "RuleMap \<Rightarrow> (string \<times> RuleSeverity \<times> jsvalue list) list" where
  "without_source m = map (\<lambda>(n, r). (n, severity r, options r)) m"

section \<open>The recommended profile (src/configs/recommended.ts)\<close>

text \<open>
  Modelled from the spec: the types \<^verbatim>\<open>ValidationResult\<close> and its dependency descriptor
  of \<^verbatim>\<open>utils/dependency-validator\<close>, a module that is not among the sources. The
  fields are those of the spec's data model; the loader reads \<open>isValid\<close> and
  \<open>warnings\<close> only.
\<close>

record DependencyDescriptor =
  dep_name :: string
  required :: bool
  description :: string

record ValidationResult =
  isValid :: bool
  available :: "DependencyDescriptor list"
  missing :: "DependencyDescriptor list"
  warnings :: "string list"
  installCommand :: "string option"

text \<open>The exported object: a \<^verbatim>\<open>Config\<close> with a \<^verbatim>\<open>name\<close>.\<close>

record Profile = Config +
  profile_name :: string

definition recommended_rules :: "(string \<times> RuleConfig) list" where
  "recommended_rules =
    [(''prefer-const'', Bare Str_error),
     (''no-var'', Bare Str_error),
     (''no-throw-literal'', Bare Str_error),
     (''no-mixed-spaces-and-tabs'', Bare Str_error),
     (''no-extra-semi'', Bare Str_error),
     (''object-shorthand'', Bare Str_error),
     (''prefer-template'', Bare Str_error),
     (''prefer-destructuring'',
        Tuple Str_error [JObject [(''array'', JBool False), (''object'', JBool True)]]),
     (''@typescript-eslint/consistent-type-imports'', Bare Str_error),
     (''@typescript-eslint/no-explicit-any'', Bare Str_error),
     (''@typescript-eslint/no-unused-vars'',
        Tuple Str_error
          [JObject [(''argsIgnorePattern'', JString ''^_''),
                    (''varsIgnorePattern'', JString ''^(_|[A-Z]$)''),
                    (''caughtErrors'', JString ''all''),
                    (''caughtErrorsIgnorePattern'', JString ''^_''),
                    (''destructuredArrayIgnorePattern'', JString ''^_''),
                    (''ignoreRestSiblings'', JBool True),
                    (''args'', JString ''after-used'')]]),
     (''@typescript-eslint/no-unused-expressions'',
        Tuple Str_error
          [JObject [(''allowShortCircuit'', JBool True), (''allowTernary'', JBool True)]]),
     (''@typescript-eslint/no-floating-promises'', Bare Str_error),
     (''@typescript-eslint/await-thenable'', Bare Str_error),
     (''@typescript-eslint/no-misused-promises'', Bare Str_error),
     (''@typescript-eslint/require-await'', Bare Str_error),
     (''@typescript-eslint/prefer-nullish-coalescing'', Bare Str_error),
     (''@typescript-eslint/prefer-optional-chain'', Bare Str_error),
     (''@typescript-eslint/no-unnecessary-condition'', Bare Str_warn),
     (''@typescript-eslint/strict-boolean-expressions'',
        Tuple Str_warn
          [JObject [(''allowString'', JBool True),
                    (''allowNumber'', JBool True),
                    (''allowNullableObject'', JBool True),
                    (''allowNullableBoolean'', JBool True),
                    (''allowNullableString'', JBool True),
                    (''allowNullableNumber'', JBool True),
                    (''allowAny'', JBool True)]]),
     (''functional/no-let'', Bare Str_error),
     (''functional/immutable-data'', Bare Str_warn),
     (''functional/no-loop-statements'', Bare Str_off),
     (''functional/prefer-immutable-types'',
        Tuple Str_warn
          [JObject [(''enforcement'', JString ''ReadonlyShallow''),
                    (''ignoreInferredTypes'', JBool True)]]),
     (''functional/no-mixed-types'', Bare Str_off),
     (''functional/functional-parameters'', Bare Str_off),
     (''functional/no-throw-statements'', Bare Str_warn),
     (''functional/no-try-statements'',
        Tuple Str_warn [JObject [(''allowCatch'', JBool True)]]),
     (''functional/no-conditional-statements'', Bare Str_off),
     (''functional/no-expression-statements'', Bare Str_off),
     (''functional/no-return-void'', Bare Str_off),
     (''prettier/prettier'',
        Tuple Str_error [JObject [], JObject [(''usePrettierrc'', JBool True)]]),
     (''simple-import-sort/imports'', Bare Str_error),
     (''simple-import-sort/exports'', Bare Str_error)]"

definition recommended :: Profile where
  "recommended = \<lparr>rules = Some recommended_rules, profile_name = ''functype/recommended''\<rparr>"

text \<open>The first line the loader writes with \<^verbatim>\<open>console.warn\<close>: a line feed, the warning
  sign with its variation selector (six bytes in UTF-8) and the title.\<close>

definition warnings_title :: string where
  "warnings_title =
     [CHR 0x0A, CHR 0xE2, CHR 0x9A, CHR 0xA0, CHR 0xEF, CHR 0xB8, CHR 0x8F]
     @ ''  eslint-config-functype warnings:''"

text \<open>
  Loading the module. The three functions imported from the validator are parameters:
  \<open>shouldValidateDependencies\<close> and \<open>validatePeerDependencies\<close> stand for what the two
  calls return, \<open>createValidationError\<close> for the error constructor. The result is the
  thrown error, or the lines written with \<^verbatim>\<open>console.warn\<close> and the exported profile.
\<close>

definition load_recommended ::
  "bool \<Rightarrow> ValidationResult \<Rightarrow> (ValidationResult \<Rightarrow> 'e) \<Rightarrow> 'e + string list \<times> Profile" where
  "load_recommended shouldValidateDependencies validatePeerDependencies createValidationError =
     (if shouldValidateDependencies then
        (let result = validatePeerDependencies
         in if \<not> isValid result then Inl (createValidationError result)
            else if length (warnings result) > 0
              then Inr ([warnings_title]
                        @ map (\<lambda>warning. ''   '' @ warning) (warnings result)
                        @ [[]],
                        recommended)
              else Inr ([], recommended))
      else Inr ([], recommended))"

section \<open>Example configurations\<close>

text \<open>The entry \<^verbatim>\<open>extractRules\<close> stores for a declaration.\<close>

definition rule_with :: "string \<Rightarrow> RuleSeverity \<Rightarrow> jsvalue list \<Rightarrow> string \<times> RuleData" where
  "rule_with n s opts = (n, \<lparr>severity = s, options = opts, source = getRuleSource n\<rparr>)"

text \<open>A local configuration \<^verbatim>\<open>{"no-var": "error", "eqeqeq": "warn"}\<close> against the
  reference \<^verbatim>\<open>{"prefer-const": "error", "no-var": "error"}\<close>.\<close>

definition small_local :: RuleMap where
  "small_local = [rule_with ''no-var'' Str_error [], rule_with ''eqeqeq'' Str_warn []]"

definition small_reference :: RuleMap where
  "small_reference = [rule_with ''prefer-const'' Str_error [], rule_with ''no-var'' Str_error []]"

text \<open>local \<^verbatim>\<open>{"foo": ["error", {a: 1}]}\<close> against reference \<^verbatim>\<open>{"foo": ["error", {a: 2}]}\<close>.\<close>

definition foo_local :: RuleMap where
  "foo_local = [rule_with ''foo'' Str_error [JObject [(''a'', JNumber 1)]]]"

definition foo_reference :: RuleMap where
  "foo_reference = [rule_with ''foo'' Str_error [JObject [(''a'', JNumber 2)]]]"

text \<open>Two results of \<^verbatim>\<open>validatePeerDependencies\<close>: a required package is missing; only
  an optional one is.\<close>

definition missing_functional :: ValidationResult where
  "missing_functional =
     \<lparr>isValid = False, available = [],
      missing = [\<lparr>dep_name = ''eslint-plugin-functional'', required = True,
                  description = ''Functional programming rules''\<rparr>],
      warnings = [], installCommand = Some ''pnpm add -D eslint-plugin-functional''\<rparr>"

definition missing_prettier :: ValidationResult where
  "missing_prettier =
     \<lparr>isValid = True, available = [],
      missing = [\<lparr>dep_name = ''eslint-plugin-prettier'', required = False,
                  description = ''Code formatting''\<rparr>],
      warnings = [''eslint-plugin-prettier is not installed''],
      installCommand = Some ''pnpm add -D eslint-plugin-prettier''\<rparr>"


section \<open>Plain JSON values\<close>

text \<open>The decimal digits, and the number a string of digits denotes.\<close>

definition is_digit :: "char \<Rightarrow> bool" where
  "is_digit c = (48 \<le> (of_char c :: nat) \<and> (of_char c :: nat) \<le> 57)"

definition digits_value :: "string \<Rightarrow> nat" where
  "digits_value s = foldl (\<lambda>a c. 10 * a + (of_char c - 48)) 0 s"

text \<open>A plain JSON value: no \<^verbatim>\<open>undefined\<close> and no BigInt at any depth, and every
  number within the integers a double holds exactly. These are the values
  \<^verbatim>\<open>JSON.stringify\<close> writes in full.\<close>

fun plain :: "jsvalue \<Rightarrow> bool"
  and plain_list :: "jsvalue list \<Rightarrow> bool"
  and plain_props :: "(string \<times> jsvalue) list \<Rightarrow> bool"
where
  "plain JNull = True"
| "plain JUndefined = False"
| "plain (JBool b) = True"
| "plain (JNumber n) = (- 9007199254740991 \<le> n \<and> n \<le> 9007199254740991)"
| "plain (JBigInt n) = False"
| "plain (JString s) = True"
| "plain (JArray vs) = plain_list vs"
| "plain (JObject ps) = plain_props ps"
| "plain_list [] = True"
| "plain_list (v # vs) = (plain v \<and> plain_list vs)"
| "plain_props [] = True"
| "plain_props ((k, v) # ps) = (plain v \<and> plain_props ps)"

text \<open>The text \<^verbatim>\<open>JSON.stringify\<close> gives for a plain value.\<close>

fun json_text :: "jsvalue \<Rightarrow> string"
  and json_texts :: "jsvalue list \<Rightarrow> string list"
  and prop_texts :: "(string \<times> jsvalue) list \<Rightarrow> string list"
where
  "json_text JNull = ''null''"
| "json_text JUndefined = []"
| "json_text (JBool b) = (if b then ''true'' else ''false'')"
| "json_text (JNumber n) = show_int n"
| "json_text (JBigInt n) = []"
| "json_text (JString s) = QuoteJSONString s"
| "json_text (JArray vs) = ''['' @ join (json_texts vs) @ '']''"
| "json_text (JObject ps) = ''{'' @ join (prop_texts ps) @ ''}''"
| "json_texts [] = []"
| "json_texts (v # vs) = json_text v # json_texts vs"
| "prop_texts [] = []"
| "prop_texts ((k, v) # ps) = (QuoteJSONString k @ '':'' @ json_text v) # prop_texts ps"

text \<open>What can follow a value inside a JSON text: nothing, a comma or a closing
  bracket.\<close>

definition ends_value :: "string \<Rightarrow> bool" where
  "ends_value r = (r = [] \<or> hd r = CHR '','' \<or> hd r = CHR '']'' \<or> hd r = CHR ''}'')"

text \<open>The first character of a value's text tells the kind of the value.\<close>

fun first_ok :: "jsvalue \<Rightarrow> char \<Rightarrow> bool" where
  "first_ok JNull c = (c = CHR ''n'')"
| "first_ok (JBool b) c = (c = (if b then CHR ''t'' else CHR ''f''))"
| "first_ok (JNumber n) c = (is_digit c \<or> c = CHR ''-'')"
| "first_ok (JString s) c = (c = CHR 0x22)"
| "first_ok (JArray vs) c = (c = CHR ''['')"
| "first_ok (JObject ps) c = (c = CHR ''{'')"
| "first_ok JUndefined c = False"
| "first_ok (JBigInt n) c = False"

section \<open>Serialisation throws on a BigInt and on nothing else\<close>

lemma serialize_defined_iff:
  "(\<exists>r. SerializeJSONProperty v = Inr r) = no_BigInt v"
  "(\<exists>r. SerializeJSONArray vs = Inr r) = no_BigInt_list vs"
  "(\<exists>r. SerializeJSONObject ps = Inr r) = no_BigInt_props ps"
  by (induction v and vs and ps
      rule: SerializeJSONProperty_SerializeJSONArray_SerializeJSONObject.induct)
     (auto split: sum.splits)

lemma stringify_defined_iff:
  "(\<exists>r. JSON_stringify opts = Inr r) = no_BigInt_list opts"
  using serialize_defined_iff(1) [of "JArray opts"] by (simp add: JSON_stringify_def)

lemma error_is_TypeError: "(e::error) = TypeError"
  by (cases e) simp

lemma stringify_throws: "\<not> no_BigInt_list opts \<Longrightarrow> JSON_stringify opts = Inl TypeError"
proof -
  assume "\<not> no_BigInt_list opts"
  then have "\<not> (\<exists>r. JSON_stringify opts = Inr r)" by (simp add: stringify_defined_iff)
  then obtain e where "JSON_stringify opts = Inl e" by (cases "JSON_stringify opts") auto
  then show ?thesis by (simp add: error_is_TypeError [of e])
qed

section \<open>The serialisation of plain values is injective\<close>

lemma digit_char: "d < 10 \<Longrightarrow> (of_char (''0123456789'' ! d) :: nat) = 48 + d"
proof -
  assume "d < 10"
  then have "d = 0 \<or> d = 1 \<or> d = 2 \<or> d = 3 \<or> d = 4 \<or> d = 5 \<or> d = 6 \<or> d = 7 \<or> d = 8 \<or> d = 9"
    by arith
  then show ?thesis by (elim disjE) simp_all
qed

lemma digits_value_snoc: "digits_value (s @ [c]) = 10 * digits_value s + (of_char c - 48)"
  by (simp add: digits_value_def)

lemma digits_value_show_nat: "digits_value (show_nat n) = n"
proof (induction n rule: show_nat.induct)
  case (1 n)
  show ?case
  proof (cases "n < 10")
    case True
    then show ?thesis
      by (subst show_nat.simps) (simp add: digits_value_def digit_char)
  next
    case False
    with 1 have "digits_value (show_nat (n div 10)) = n div 10" by simp
    with False show ?thesis
      by (subst show_nat.simps) (simp add: digits_value_snoc digit_char)
  qed
qed

lemma show_nat_digits: "\<forall>c \<in> set (show_nat n). is_digit c"
proof (induction n rule: show_nat.induct)
  case (1 n)
  show ?case
  proof (cases "n < 10")
    case True
    then show ?thesis
      by (subst show_nat.simps) (simp add: is_digit_def digit_char)
  next
    case False
    with 1 have "\<forall>c \<in> set (show_nat (n div 10)). is_digit c" by simp
    with False show ?thesis
      by (subst show_nat.simps) (simp add: is_digit_def digit_char)
  qed
qed

lemma show_nat_nonempty: "show_nat n \<noteq> []"
proof (cases "n < 10")
  case True
  then have "show_nat n = [''0123456789'' ! n]" by (subst show_nat.simps) simp
  then show ?thesis by simp
next
  case False
  then have "show_nat n = show_nat (n div 10) @ [''0123456789'' ! (n mod 10)]"
    by (subst show_nat.simps) simp
  then show ?thesis by simp
qed

lemma show_nat_inj: "show_nat n = show_nat m \<Longrightarrow> n = m"
proof -
  assume "show_nat n = show_nat m"
  then have "digits_value (show_nat n) = digits_value (show_nat m)" by (rule arg_cong)
  then show "n = m" by (simp only: digits_value_show_nat)
qed

text \<open>A run of characters of one kind, ended by a character of another kind, is
  determined by the whole string.\<close>

lemma run_unique:
  assumes "\<forall>x \<in> set xs. P x" "\<forall>y \<in> set ys. P y"
    and "r = [] \<or> \<not> P (hd r)" "r' = [] \<or> \<not> P (hd r')"
    and "xs @ r = ys @ r'"
  shows "xs = ys \<and> r = r'"
  using assms
proof (induction xs arbitrary: ys)
  case Nil
  then show ?case by (cases ys) auto
next
  case (Cons x xs)
  show ?case
  proof (cases ys)
    case Nil
    with Cons.prems show ?thesis by auto
  next
    case (Cons y ys')
    with Cons.prems Cons.IH [of ys'] show ?thesis by auto
  qed
qed

lemma hex_digit_inj: "hex_digit a = hex_digit b \<Longrightarrow> a mod 16 = b mod 16"
proof -
  assume h: "hex_digit a = hex_digit b"
  have d: "distinct ''0123456789abcdef''" by simp
  have l: "a mod 16 < length ''0123456789abcdef''" "b mod 16 < length ''0123456789abcdef''"
    by simp_all
  from h show ?thesis
    unfolding hex_digit_def nth_eq_iff_index_eq [OF d l] .
qed

lemma control_code_inj:
  assumes "(of_char c :: nat) < 32" "(of_char c' :: nat) < 32"
    and "hex_digit (of_char c div 16) = hex_digit (of_char c' div 16)"
    and "hex_digit (of_char c) = hex_digit (of_char c')"
  shows "c = c'"
proof -
  let ?a = "of_char c :: nat" and ?b = "of_char c' :: nat"
  from hex_digit_inj [OF assms(3)] assms(1,2) have hi: "?a div 16 = ?b div 16" by simp
  from hex_digit_inj [OF assms(4)] have lo: "?a mod 16 = ?b mod 16" .
  have "?a = 16 * (?a div 16) + ?a mod 16" by simp
  also have "\<dots> = 16 * (?b div 16) + ?b mod 16" by (simp only: hi lo)
  also have "\<dots> = ?b" by simp
  finally show ?thesis by simp
qed

lemma quote_char_cases:
  obtains (quote) "c = CHR 0x22" "quote_char c = [CHR 0x5C, CHR 0x22]"
  | (backslash) "c = CHR 0x5C" "quote_char c = [CHR 0x5C, CHR 0x5C]"
  | (short) e where "e \<in> {CHR ''b'', CHR ''t'', CHR ''n'', CHR ''f'', CHR ''r''}"
      "quote_char c = [CHR 0x5C, e]"
      "c = (if e = CHR ''b'' then CHR 0x08 else if e = CHR ''t'' then CHR 0x09
            else if e = CHR ''n'' then CHR 0x0A else if e = CHR ''f'' then CHR 0x0C
            else CHR 0x0D)"
  | (control) "(of_char c :: nat) < 32"
      "quote_char c = [CHR 0x5C, CHR ''u'', CHR ''0'', CHR ''0'',
              hex_digit (of_char c div 16), hex_digit (of_char c)]"
  | (plain) "c \<noteq> CHR 0x22" "c \<noteq> CHR 0x5C" "quote_char c = [c]"
proof -
  consider "c = CHR 0x22" | "c = CHR 0x5C" | "c = CHR 0x08" | "c = CHR 0x09" | "c = CHR 0x0A"
    | "c = CHR 0x0C" | "c = CHR 0x0D"
    | "c \<notin> {CHR 0x22, CHR 0x5C, CHR 0x08, CHR 0x09, CHR 0x0A, CHR 0x0C, CHR 0x0D}"
    by blast
  then show thesis
  proof cases
    case 1
    then show ?thesis by (intro quote) (simp_all add: quote_char_def)
  next
    case 2
    then show ?thesis by (intro backslash) (simp_all add: quote_char_def)
  next
    case 3
    then show ?thesis by (intro short [of "CHR ''b''"]) (simp_all add: quote_char_def)
  next
    case 4
    then show ?thesis by (intro short [of "CHR ''t''"]) (simp_all add: quote_char_def)
  next
    case 5
    then show ?thesis by (intro short [of "CHR ''n''"]) (simp_all add: quote_char_def)
  next
    case 6
    then show ?thesis by (intro short [of "CHR ''f''"]) (simp_all add: quote_char_def)
  next
    case 7
    then show ?thesis by (intro short [of "CHR ''r''"]) (simp_all add: quote_char_def)
  next
    case 8
    show ?thesis
    proof (cases "(of_char c :: nat) < 32")
      case True
      with 8 show ?thesis by (intro control) (simp_all add: quote_char_def)
    next
      case False
      with 8 show ?thesis by (intro plain) (simp_all add: quote_char_def)
    qed
  qed
qed

lemma quote_char_inj:
  assumes "quote_char c @ X = quote_char c' @ X'"
  shows "c = c' \<and> X = X'"
proof (cases c rule: quote_char_cases)
  case quote
  with assms show ?thesis by (cases c' rule: quote_char_cases) auto
next
  case backslash
  with assms show ?thesis by (cases c' rule: quote_char_cases) auto
next
  case (short e)
  with assms show ?thesis by (cases c' rule: quote_char_cases) (auto split: if_splits)
next
  case control
  note c = this
  show ?thesis
  proof (cases c' rule: quote_char_cases)
    case control
    with c assms show ?thesis by (auto dest: control_code_inj)
  qed (use c assms in auto)
next
  case plain
  with assms show ?thesis by (cases c' rule: quote_char_cases) auto
qed

lemma quote_char_start: "quote_char c \<noteq> [] \<and> hd (quote_char c) \<noteq> CHR 0x22"
  by (cases c rule: quote_char_cases) auto

lemma quoted_inj:
  "concat (map quote_char s) @ CHR 0x22 # r = concat (map quote_char s') @ CHR 0x22 # r'
   \<Longrightarrow> s = s' \<and> r = r'"
proof (induction s arbitrary: s')
  case Nil
  show ?case
  proof (cases s')
    case Nil
    with Nil.prems show ?thesis by simp
  next
    case (Cons c' t')
    from quote_char_start [of c'] obtain x xs where "quote_char c' = x # xs" "x \<noteq> CHR 0x22"
      by (cases "quote_char c'") auto
    with Nil.prems Cons show ?thesis by simp
  qed
next
  case (Cons c t)
  show ?case
  proof (cases s')
    case Nil
    from quote_char_start [of c] obtain x xs where "quote_char c = x # xs" "x \<noteq> CHR 0x22"
      by (cases "quote_char c") auto
    with Cons.prems Nil show ?thesis by simp
  next
    case (Cons c' t')
    with Cons.prems have
      "quote_char c @ (concat (map quote_char t) @ CHR 0x22 # r)
       = quote_char c' @ (concat (map quote_char t') @ CHR 0x22 # r')"
      by simp
    from quote_char_inj [OF this] Cons.IH [of t'] Cons show ?thesis by simp
  qed
qed

lemma QuoteJSONString_inj:
  "QuoteJSONString s @ r = QuoteJSONString s' @ r' \<Longrightarrow> s = s' \<and> r = r'"
  using quoted_inj [of s r s' r'] by (simp add: QuoteJSONString_def)

lemma plain_no_BigInt:
  "plain v \<Longrightarrow> no_BigInt v"
  "plain_list vs \<Longrightarrow> no_BigInt_list vs"
  "plain_props ps \<Longrightarrow> no_BigInt_props ps"
  by (induction v and vs and ps rule: plain_plain_list_plain_props.induct) simp_all

lemma serialize_plain:
  "plain v \<Longrightarrow> SerializeJSONProperty v = Inr (Some (json_text v))"
  "plain_list vs \<Longrightarrow> SerializeJSONArray vs = Inr (json_texts vs)"
  "plain_props ps \<Longrightarrow> SerializeJSONObject ps = Inr (prop_texts ps)"
  by (induction v and vs and ps rule: plain_plain_list_plain_props.induct) simp_all

lemma join_Cons: "join (t # ts) = t @ concat (map (\<lambda>u. CHR '','' # u) ts)"
  by (induction ts arbitrary: t) simp_all

lemma show_int_hd: "\<exists>c cs. show_int n = c # cs \<and> (is_digit c \<or> c = CHR ''-'')"
proof (cases "n < 0")
  case True
  then show ?thesis by (simp add: show_int_def)
next
  case False
  obtain c cs where s: "show_nat (nat n) = c # cs"
    using show_nat_nonempty [of "nat n"] by (cases "show_nat (nat n)") auto
  with show_nat_digits [of "nat n"] have "is_digit c" by simp
  with s False show ?thesis by (simp add: show_int_def)
qed

lemma ends_value_not_digit: "ends_value r \<Longrightarrow> r = [] \<or> \<not> is_digit (hd r)"
  by (auto simp: ends_value_def is_digit_def)

lemma show_nat_run:
  assumes "show_nat a @ r = show_nat b @ r'" "ends_value r" "ends_value r'"
  shows "a = b \<and> r = r'"
proof -
  have "show_nat a = show_nat b \<and> r = r'"
    by (rule run_unique [where P = is_digit, OF show_nat_digits show_nat_digits
          ends_value_not_digit [OF assms(2)] ends_value_not_digit [OF assms(3)] assms(1)])
  then show ?thesis by (auto dest: show_nat_inj)
qed

lemma minus_not_digit: "\<not> is_digit (CHR ''-'')"
  by (simp add: is_digit_def)

lemma show_int_run:
  assumes "show_int n @ r = show_int m @ r'" "ends_value r" "ends_value r'"
  shows "n = m \<and> r = r'"
proof -
  have digit_first: "\<exists>c cs. show_nat k = c # cs \<and> is_digit c" for k
    using show_nat_nonempty [of k] show_nat_digits [of k] by (cases "show_nat k") auto
  show ?thesis
  proof (cases "n < 0")
    case True
    note n = this
    show ?thesis
    proof (cases "m < 0")
      case True
      with n assms(1) have "show_nat (nat (- n)) @ r = show_nat (nat (- m)) @ r'"
        by (simp add: show_int_def)
      from show_nat_run [OF this assms(2,3)] n True show ?thesis by auto
    next
      case False
      from digit_first [of "nat m"] obtain c cs
        where "show_nat (nat m) = c # cs" "is_digit c" by blast
      with n False assms(1) minus_not_digit show ?thesis by (auto simp: show_int_def)
    qed
  next
    case False
    note n = this
    show ?thesis
    proof (cases "m < 0")
      case True
      from digit_first [of "nat n"] obtain c cs
        where "show_nat (nat n) = c # cs" "is_digit c" by blast
      with n True assms(1) minus_not_digit show ?thesis by (auto simp: show_int_def)
    next
      case False
      with n assms(1) have "show_nat (nat n) @ r = show_nat (nat m) @ r'"
        by (simp add: show_int_def)
      from show_nat_run [OF this assms(2,3)] n False show ?thesis by auto
    qed
  qed
qed

lemma json_text_first:
  assumes "plain v"
  shows "\<exists>c cs. json_text v = c # cs \<and> first_ok v c"
proof (cases v)
  case (JNumber n)
  with show_int_hd [of n] show ?thesis by auto
next
  case (JString s)
  then show ?thesis by (simp add: QuoteJSONString_def)
qed (use assms in auto)

lemma first_ok_kind:
  assumes "first_ok v c"
  shows "(c = CHR ''n'' \<longrightarrow> v = JNull)
       \<and> (c = CHR ''t'' \<longrightarrow> v = JBool True)
       \<and> (c = CHR ''f'' \<longrightarrow> v = JBool False)
       \<and> (is_digit c \<or> c = CHR ''-'' \<longrightarrow> (\<exists>n. v = JNumber n))
       \<and> (c = CHR 0x22 \<longrightarrow> (\<exists>s. v = JString s))
       \<and> (c = CHR ''['' \<longrightarrow> (\<exists>vs. v = JArray vs))
       \<and> (c = CHR ''{'' \<longrightarrow> (\<exists>ps. v = JObject ps))
       \<and> c \<noteq> CHR '','' \<and> c \<noteq> CHR '']'' \<and> c \<noteq> CHR ''}''"
  using assms by (cases v) (auto simp: is_digit_def split: if_splits)

lemma sep_join:
  "ts \<noteq> [] \<Longrightarrow> concat (map ((#) (CHR '','')) ts) = CHR '','' # join ts"
  by (cases ts) (simp_all add: join_Cons)

lemma ends_sep:
  "ends_value (concat (map ((#) (CHR '','')) ts) @ CHR '']'' # r)"
  "ends_value (concat (map ((#) (CHR '','')) ts) @ CHR ''}'' # r)"
  by (cases ts; simp add: ends_value_def)+

lemma json_text_inj:
  "plain v \<Longrightarrow> plain v' \<Longrightarrow> ends_value r \<Longrightarrow> ends_value r' \<Longrightarrow>
     json_text v @ r = json_text v' @ r' \<Longrightarrow> v = v' \<and> r = r'"
  "plain_list vs \<Longrightarrow> plain_list vs' \<Longrightarrow>
     concat (map ((#) (CHR '','')) (json_texts vs)) @ CHR '']'' # r
       = concat (map ((#) (CHR '','')) (json_texts vs')) @ CHR '']'' # r'
     \<Longrightarrow> vs = vs' \<and> r = r'"
  "plain_props ps \<Longrightarrow> plain_props ps' \<Longrightarrow>
     concat (map ((#) (CHR '','')) (prop_texts ps)) @ CHR ''}'' # r
       = concat (map ((#) (CHR '','')) (prop_texts ps')) @ CHR ''}'' # r'
     \<Longrightarrow> ps = ps' \<and> r = r'"
proof (induction v and vs and ps arbitrary: v' r r' and vs' r r' and ps' r r'
       rule: json_text_json_texts_prop_texts.induct)
  case 1
  from json_text_first [OF "1.prems"(2)] obtain c cs
    where t: "json_text v' = c # cs" and f: "first_ok v' c" by blast
  with "1.prems"(5) have "c = CHR ''n''" by simp
  with first_ok_kind [OF f] have "v' = JNull" by simp
  with "1.prems"(5) show ?case by simp
next
  case 2
  then show ?case by simp
next
  case (3 b)
  from json_text_first [OF "3.prems"(2)] obtain c cs
    where t: "json_text v' = c # cs" and f: "first_ok v' c" by blast
  with "3.prems"(5) have "c = (if b then CHR ''t'' else CHR ''f'')" by (simp split: if_splits)
  with first_ok_kind [OF f] have "v' = JBool b" by (cases b) simp_all
  with "3.prems"(5) show ?case by (simp split: if_splits)
next
  case (4 n)
  from json_text_first [OF "4.prems"(2)] obtain c cs
    where t: "json_text v' = c # cs" and f: "first_ok v' c" by blast
  from show_int_hd [of n] obtain d ds
    where s: "show_int n = d # ds" and d: "is_digit d \<or> d = CHR ''-''" by blast
  from "4.prems"(5) t s have "c = d" by simp
  with first_ok_kind [OF f] d have "\<exists>m. v' = JNumber m" by simp
  then obtain m where m: "v' = JNumber m" ..
  with "4.prems"(5) have "show_int n @ r = show_int m @ r'" by simp
  from show_int_run [OF this "4.prems"(3,4)] have "n = m" "r = r'" by blast+
  with m show ?case by blast
next
  case 5
  then show ?case by simp
next
  case (6 s)
  from json_text_first [OF "6.prems"(2)] obtain c cs
    where t: "json_text v' = c # cs" and f: "first_ok v' c" by blast
  with "6.prems"(5) have "c = CHR 0x22" by (simp add: QuoteJSONString_def)
  with first_ok_kind [OF f] have "\<exists>s'. v' = JString s'" by simp
  then obtain s' where s': "v' = JString s'" ..
  with "6.prems"(5) have "QuoteJSONString s @ r = QuoteJSONString s' @ r'" by simp
  from QuoteJSONString_inj [OF this] s' show ?case by simp
next
  case (7 vs)
  from json_text_first [OF "7.prems"(2)] obtain c cs
    where t: "json_text v' = c # cs" and f: "first_ok v' c" by blast
  with "7.prems"(5) have "c = CHR ''[''" by simp
  with first_ok_kind [OF f] have "\<exists>vs'. v' = JArray vs'" by simp
  then obtain vs' where vs': "v' = JArray vs'" ..
  with "7.prems"(5) have eq: "join (json_texts vs) @ CHR '']'' # r
      = join (json_texts vs') @ CHR '']'' # r'" by simp
  from "7.prems"(1,2) vs' have pl: "plain_list vs" "plain_list vs'" by simp_all
  show ?case
  proof (cases vs)
    case Nil
    note vn = this
    show ?thesis
    proof (cases vs')
      case Nil
      with vn eq vs' show ?thesis by simp
    next
      case (Cons w ws)
      with pl have "plain w" by simp
      from json_text_first [OF this] obtain d ds
        where "json_text w = d # ds" "first_ok w d" by blast
      with eq vn Cons first_ok_kind [of w d] show ?thesis by (simp add: join_Cons)
    qed
  next
    case (Cons u us)
    note vc = this
    show ?thesis
    proof (cases vs')
      case Nil
      from vc pl have "plain u" by simp
      from json_text_first [OF this] obtain d ds
        where "json_text u = d # ds" "first_ok u d" by blast
      with eq vc Nil first_ok_kind [of u d] show ?thesis by (simp add: join_Cons)
    next
      case (Cons w ws)
      with vc have ne: "json_texts vs \<noteq> []" "json_texts vs' \<noteq> []" by simp_all
      from eq have "concat (map ((#) (CHR '','')) (json_texts vs)) @ CHR '']'' # r
          = concat (map ((#) (CHR '','')) (json_texts vs')) @ CHR '']'' # r'"
        by (simp add: sep_join [OF ne(1)] sep_join [OF ne(2)])
      from "7.IH" [OF pl this] vs' show ?thesis by simp
    qed
  qed
next
  case (8 ps)
  from json_text_first [OF "8.prems"(2)] obtain c cs
    where t: "json_text v' = c # cs" and f: "first_ok v' c" by blast
  with "8.prems"(5) have "c = CHR ''{''" by simp
  with first_ok_kind [OF f] have "\<exists>ps'. v' = JObject ps'" by simp
  then obtain ps' where ps': "v' = JObject ps'" ..
  with "8.prems"(5) have eq: "join (prop_texts ps) @ CHR ''}'' # r
      = join (prop_texts ps') @ CHR ''}'' # r'" by simp
  from "8.prems"(1,2) ps' have pl: "plain_props ps" "plain_props ps'" by simp_all
  show ?case
  proof (cases ps)
    case Nil
    note pn = this
    show ?thesis
    proof (cases ps')
      case Nil
      with pn eq ps' show ?thesis by simp
    next
      case (Cons p qs)
      obtain k w where "p = (k, w)" by (cases p)
      with eq pn Cons show ?thesis by (simp add: join_Cons QuoteJSONString_def)
    qed
  next
    case (Cons p0 ps0)
    note pc = this
    obtain k0 w0 where p0: "p0 = (k0, w0)" by (cases p0)
    show ?thesis
    proof (cases ps')
      case Nil
      with eq pc p0 show ?thesis by (simp add: join_Cons QuoteJSONString_def)
    next
      case (Cons p qs)
      with pc have ne: "prop_texts ps \<noteq> []" "prop_texts ps' \<noteq> []"
        by (cases p0; cases p; simp)+
      from eq have "concat (map ((#) (CHR '','')) (prop_texts ps)) @ CHR ''}'' # r
          = concat (map ((#) (CHR '','')) (prop_texts ps')) @ CHR ''}'' # r'"
        by (simp add: sep_join [OF ne(1)] sep_join [OF ne(2)])
      from "8.IH" [OF pl this] ps' show ?thesis by simp
    qed
  qed
next
  case 9
  then show ?case by (cases vs') simp_all
next
  case (10 v vs)
  show ?case
  proof (cases vs')
    case Nil
    with "10.prems"(3) show ?thesis by simp
  next
    case (Cons w ws)
    with "10.prems" have pw: "plain v" "plain w" "plain_list vs" "plain_list ws" by simp_all
    let ?Y = "concat (map ((#) (CHR '','')) (json_texts vs)) @ CHR '']'' # r"
    let ?Y' = "concat (map ((#) (CHR '','')) (json_texts ws)) @ CHR '']'' # r'"
    from "10.prems"(3) Cons have "json_text v @ ?Y = json_text w @ ?Y'" by simp
    from "10.IH"(1) [OF pw(1,2) ends_sep(1) ends_sep(1) this]
    have vw: "v = w" and y: "?Y = ?Y'" by simp_all
    from "10.IH"(2) [OF pw(3,4) y] vw Cons show ?thesis by simp
  qed
next
  case 11
  show ?case
  proof (cases ps')
    case Nil
    with "11.prems" show ?thesis by simp
  next
    case (Cons p qs)
    obtain k w where "p = (k, w)" by (cases p)
    with "11.prems"(3) Cons show ?thesis by simp
  qed
next
  case (12 k v ps)
  show ?case
  proof (cases ps')
    case Nil
    with "12.prems"(3) show ?thesis by simp
  next
    case (Cons p qs)
    obtain k' w where p: "p = (k', w)" by (cases p)
    with "12.prems" Cons have pw: "plain v" "plain w" "plain_props ps" "plain_props qs"
      by simp_all
    let ?Y = "concat (map ((#) (CHR '','')) (prop_texts ps)) @ CHR ''}'' # r"
    let ?Y' = "concat (map ((#) (CHR '','')) (prop_texts qs)) @ CHR ''}'' # r'"
    from "12.prems"(3) Cons p
    have "QuoteJSONString k @ (CHR '':'' # json_text v @ ?Y)
        = QuoteJSONString k' @ (CHR '':'' # json_text w @ ?Y')" by simp
    from QuoteJSONString_inj [OF this]
    have kk: "k = k'" and rest: "json_text v @ ?Y = json_text w @ ?Y'" by simp_all
    from "12.IH"(1) [OF pw(1,2) ends_sep(2) ends_sep(2) rest]
    have vw: "v = w" and y: "?Y = ?Y'" by simp_all
    from "12.IH"(2) [OF pw(3,4) y] kk vw Cons p show ?thesis by simp
  qed
qed

lemma stringify_plain_inj:
  assumes "plain_list a" "plain_list b"
  shows "(JSON_stringify a = JSON_stringify b) = (a = b)"
proof
  assume eq: "JSON_stringify a = JSON_stringify b"
  from assms have pa: "plain (JArray a)" and pb: "plain (JArray b)" by simp_all
  from eq have "json_text (JArray a) @ [] = json_text (JArray b) @ []"
    unfolding JSON_stringify_def serialize_plain(1) [OF pa] serialize_plain(1) [OF pb]
    by simp
  moreover have "ends_value []" by (simp add: ends_value_def)
  ultimately have "JArray a = JArray b \<and> ([]::string) = []"
    using pa pb by (intro json_text_inj(1))
  then show "a = b" by simp
qed simp

section \<open>Sets and sorting\<close>

lemma set_foldl_set_add: "set (foldl set_add s xs) = set s \<union> set xs"
  by (induction xs arbitrary: s) (auto simp: set_add_def)

lemma distinct_foldl_set_add: "distinct s \<Longrightarrow> distinct (foldl set_add s xs)"
  by (induction xs arbitrary: s) (auto simp: set_add_def)

lemma set_new_Set: "set (new_Set xs) = set xs"
  by (simp add: new_Set_def set_foldl_set_add)

lemma distinct_new_Set: "distinct (new_Set xs)"
  by (simp add: new_Set_def distinct_foldl_set_add)

lemma set_insert_by: "set (insert_by cmp x xs) = insert x (set xs)"
  by (induction xs) auto

lemma set_array_sort: "set (array_sort cmp xs) = set xs"
  by (induction xs) (auto simp: array_sort_def set_insert_by)

lemma distinct_map_insert_by:
  "distinct (map f (insert_by cmp x xs)) = (f x \<notin> f ` set xs \<and> distinct (map f xs))"
  by (induction xs) (auto simp: set_insert_by)

lemma distinct_map_array_sort: "distinct (map f (array_sort cmp xs)) = distinct (map f xs)"
  by (induction xs)
     (auto simp: array_sort_def distinct_map_insert_by set_array_sort [unfolded array_sort_def])

lemma sorted_insert_by:
  assumes tot: "\<And>a b. cmp a b \<le> 0 \<or> cmp b a \<le> 0"
    and trans: "\<And>a b c. cmp a b \<le> 0 \<Longrightarrow> cmp b c \<le> 0 \<Longrightarrow> cmp a c \<le> 0"
  shows "sorted_wrt (\<lambda>a b. cmp a b \<le> 0) xs
         \<Longrightarrow> sorted_wrt (\<lambda>a b. cmp a b \<le> 0) (insert_by cmp x xs)"
proof (induction xs)
  case Nil
  then show ?case by simp
next
  case (Cons y ys)
  show ?case
  proof (cases "cmp x y \<le> 0")
    case True
    with Cons.prems trans show ?thesis by auto
  next
    case False
    with tot have "cmp y x \<le> 0" by blast
    with False Cons show ?thesis by (auto simp: set_insert_by)
  qed
qed

lemma sorted_array_sort:
  assumes tot: "\<And>a b. cmp a b \<le> 0 \<or> cmp b a \<le> 0"
    and trans: "\<And>a b c. cmp a b \<le> 0 \<Longrightarrow> cmp b c \<le> 0 \<Longrightarrow> cmp a c \<le> 0"
  shows "sorted_wrt (\<lambda>a b. cmp a b \<le> 0) (array_sort cmp xs)"
proof (induction xs)
  case Nil
  then show ?case by (simp add: array_sort_def)
next
  case (Cons x xs)
  then show ?case
    using sorted_insert_by [of cmp, OF tot trans] by (simp add: array_sort_def)
qed

lemma count_by_key:
  "distinct (map f xs) \<Longrightarrow>
   length (filter (\<lambda>x. f x = y) xs) = (if y \<in> f ` set xs then 1 else 0)"
  by (induction xs) auto

section \<open>The comparators are consistent\<close>

lemma compare_by_total: "compare_by k a b \<le> 0 \<or> compare_by k b a \<le> 0"
  by (induction k a b rule: compare_by.induct) auto

lemma compare_by_trans:
  "compare_by k a b \<le> 0 \<Longrightarrow> compare_by k b c \<le> 0 \<Longrightarrow> compare_by k a c \<le> 0"
proof (induction k a b arbitrary: c rule: compare_by.induct)
  case (1 k)
  then show ?case by simp
next
  case (2 k y ys)
  then show ?case by (cases c) simp_all
next
  case (3 k x xs)
  then show ?case by simp
next
  case (4 k x xs y ys)
  show ?case
  proof (cases c)
    case Nil
    with "4.prems" show ?thesis by simp
  next
    case (Cons z zs)
    from "4.prems"(1) have xy: "k x \<le> k y" by (simp split: if_splits)
    from "4.prems"(2) Cons have yz: "k y \<le> k z" by (simp split: if_splits)
    show ?thesis
    proof (cases "k x < k z")
      case True
      then show ?thesis by (simp add: Cons)
    next
      case False
      with xy yz have eq: "k x = k y" "k y = k z" by auto
      with "4.prems" Cons have "compare_by k xs ys \<le> 0" "compare_by k ys zs \<le> 0" by auto
      with "4.IH" eq have "compare_by k xs zs \<le> 0" by auto
      with eq show ?thesis by (simp add: Cons)
    qed
  qed
qed

lemma consistent_compare_by: "consistent_comparator (compare_by k)"
  unfolding consistent_comparator_def using compare_by_total compare_by_trans by blast

section \<open>What the differ computes\<close>

subsection \<open>One rule name\<close>

lemma visit_rule_append:
  "visit_rule A B diffs n =
     (case visit_rule A B [] n of Inl e \<Rightarrow> Inl e | Inr ds \<Rightarrow> Inr (diffs @ ds))"
  by (simp add: visit_rule_def Let_def split: option.splits sum.splits)

lemma visit_rule_defined:
  "(\<exists>ds. visit_rule A B [] n = Inr ds) = both_stringifiable A B n"
proof (cases "map_get A n")
  case None
  then show ?thesis
    by (simp add: visit_rule_def both_stringifiable_def split: option.splits)
next
  case (Some l)
  note l = this
  show ?thesis
  proof (cases "map_get B n")
    case None
    with l show ?thesis by (simp add: visit_rule_def both_stringifiable_def)
  next
    case (Some f)
    show ?thesis
    proof (cases "no_BigInt_list (options l) \<and> no_BigInt_list (options f)")
      case True
      then obtain a b
        where "JSON_stringify (options l) = Inr a" "JSON_stringify (options f) = Inr b"
        using stringify_defined_iff by blast
      with l Some True show ?thesis
        by (simp add: visit_rule_def both_stringifiable_def Let_def)
    next
      case False
      then have "JSON_stringify (options l) = Inl TypeError \<or>
                 JSON_stringify (options f) = Inl TypeError"
        using stringify_throws by blast
      with l Some False show ?thesis
        by (auto simp: visit_rule_def both_stringifiable_def Let_def split: sum.splits)
    qed
  qed
qed

lemma visit_rule_pushed:
  "visit_rule A B diffs n =
     (if both_stringifiable A B n then Inr (diffs @ pushed A B n) else Inl TypeError)"
proof (cases "both_stringifiable A B n")
  case True
  then obtain ds where "visit_rule A B [] n = Inr ds" using visit_rule_defined by blast
  with True show ?thesis by (simp add: visit_rule_append [of A B diffs n] pushed_def)
next
  case False
  then have "\<not> (\<exists>ds. visit_rule A B [] n = Inr ds)" by (simp add: visit_rule_defined)
  then obtain e where "visit_rule A B [] n = Inl e" by (cases "visit_rule A B [] n") auto
  with False show ?thesis
    by (simp add: visit_rule_append [of A B diffs n] error_is_TypeError [of e])
qed

lemma pushed_neither:
  "map_get A n = None \<Longrightarrow> map_get B n = None \<Longrightarrow> pushed A B n = []"
  by (simp add: pushed_def visit_rule_def)

lemma pushed_added:
  "map_get A n = None \<Longrightarrow> map_get B n = Some f \<Longrightarrow>
   pushed A B n = [\<lparr>name = n, status = Added, localSeverity = None,
                    functypeSeverity = Some (severity f), localOptions = None,
                    functypeOptions = Some (options f)\<rparr>]"
  by (simp add: pushed_def visit_rule_def)

lemma pushed_removed:
  "map_get A n = Some l \<Longrightarrow> map_get B n = None \<Longrightarrow>
   pushed A B n = [\<lparr>name = n, status = Removed, localSeverity = Some (severity l),
                    functypeSeverity = None, localOptions = Some (options l),
                    functypeOptions = None\<rparr>]"
  by (simp add: pushed_def visit_rule_def)

lemma pushed_both:
  assumes "map_get A n = Some l" "map_get B n = Some f"
    and "no_BigInt_list (options l)" "no_BigInt_list (options f)"
  shows "pushed A B n =
     [if severity l \<noteq> severity f \<or> JSON_stringify (options l) \<noteq> JSON_stringify (options f)
      then \<lparr>name = n, status = Different, localSeverity = Some (severity l),
             functypeSeverity = Some (severity f), localOptions = Some (options l),
             functypeOptions = Some (options f)\<rparr>
      else \<lparr>name = n, status = Same, localSeverity = Some (severity l),
             functypeSeverity = Some (severity f), localOptions = None,
             functypeOptions = None\<rparr>]"
proof -
  obtain a b where "JSON_stringify (options l) = Inr a" "JSON_stringify (options f) = Inr b"
    using assms(3,4) stringify_defined_iff by blast
  with assms(1,2) show ?thesis by (simp add: pushed_def visit_rule_def Let_def)
qed

lemma map_get_None_iff: "(map_get A n = None) = (n \<notin> set (map_keys A))"
  by (simp add: map_get_def map_keys_def map_of_eq_None_iff)

lemma map_get_Some_key: "map_get A n = Some r \<Longrightarrow> n \<in> set (map_keys A)"
  using map_get_None_iff [of A n] by simp

lemma pushed_names:
  assumes "both_stringifiable A B n"
  shows "map name (pushed A B n)
         = (if n \<in> set (map_keys A) \<union> set (map_keys B) then [n] else [])"
proof (cases "map_get A n")
  case None
  note a = this
  show ?thesis
  proof (cases "map_get B n")
    case None
    with a show ?thesis by (simp add: pushed_neither map_get_None_iff [symmetric])
  next
    case (Some f)
    with a show ?thesis by (simp add: pushed_added map_get_Some_key)
  qed
next
  case (Some l)
  note a = this
  show ?thesis
  proof (cases "map_get B n")
    case None
    with a show ?thesis by (simp add: pushed_removed map_get_Some_key)
  next
    case (Some f)
    with a assms have "no_BigInt_list (options l)" "no_BigInt_list (options f)"
      by (simp_all add: both_stringifiable_def)
    with a Some show ?thesis by (simp add: pushed_both map_get_Some_key)
  qed
qed

lemma pushed_at_most_one:
  assumes "both_stringifiable A B n"
  shows "pushed A B n = [] \<or> (\<exists>d. pushed A B n = [d])"
proof -
  have "length (map name (pushed A B n)) \<le> 1"
    unfolding pushed_names [OF assms] by simp
  then have "length (pushed A B n) \<le> 1" by simp
  then show ?thesis by (cases "pushed A B n") auto
qed

subsection \<open>The loop and the whole function\<close>

lemma forEach_rule_eq:
  "forEach_rule A B diffs ns =
     (if list_all (both_stringifiable A B) ns
      then Inr (diffs @ concat (map (pushed A B) ns)) else Inl TypeError)"
  by (induction ns arbitrary: diffs) (simp_all add: visit_rule_pushed)

lemma both_stringifiable_of:
  assumes "stringifiable A B"
  shows "both_stringifiable A B n"
proof (cases "n \<in> set (map_keys A)")
  case True
  with assms show ?thesis by (simp add: stringifiable_def list_all_iff)
next
  case False
  then show ?thesis by (simp add: both_stringifiable_def map_get_None_iff [symmetric])
qed

lemma stringifiable_iff: "stringifiable A B = (\<forall>n. both_stringifiable A B n)"
proof
  assume "stringifiable A B"
  then show "\<forall>n. both_stringifiable A B n" by (simp add: both_stringifiable_of)
next
  assume "\<forall>n. both_stringifiable A B n"
  then show "stringifiable A B" by (simp add: stringifiable_def list_all_iff)
qed

lemma stringifiable_all_names:
  "list_all (both_stringifiable A B) (new_Set (map_keys A @ map_keys B)) = stringifiable A B"
proof -
  have "both_stringifiable A B n" if "n \<notin> set (map_keys A)" for n
    using that by (simp add: both_stringifiable_def map_get_None_iff [symmetric])
  then show ?thesis
    by (auto simp: stringifiable_def list_all_iff set_new_Set)
qed

lemma compareRules_eq:
  "compareRules cmp A B =
     (if stringifiable A B
      then Inr (array_sort (\<lambda>a b. cmp (name a) (name b))
                  (concat (map (pushed A B) (new_Set (map_keys A @ map_keys B)))))
      else Inl TypeError)"
  by (simp add: compareRules_def Let_def forEach_rule_eq stringifiable_all_names)

lemma names_pushed_all:
  assumes "list_all (both_stringifiable A B) ns"
    and "set ns \<subseteq> set (map_keys A) \<union> set (map_keys B)"
  shows "map name (concat (map (pushed A B) ns)) = ns"
  using assms by (induction ns) (simp_all add: pushed_names)

lemma compareRules_names:
  assumes "compareRules cmp A B = Inr ds"
  shows "distinct (map name ds)"
    and "set (map name ds) = set (map_keys A) \<union> set (map_keys B)"
    and "set ds = (\<Union>n \<in> set (map_keys A) \<union> set (map_keys B). set (pushed A B n))"
proof -
  let ?ns = "new_Set (map_keys A @ map_keys B)"
  let ?raw = "concat (map (pushed A B) ?ns)"
  from assms have ok: "stringifiable A B"
    and ds: "ds = array_sort (\<lambda>a b. cmp (name a) (name b)) ?raw"
    by (auto simp: compareRules_eq split: if_splits)
  have names: "map name ?raw = ?ns"
    using ok by (intro names_pushed_all) (simp_all add: stringifiable_all_names set_new_Set)
  show "distinct (map name ds)"
    by (simp add: ds distinct_map_array_sort names distinct_new_Set)
  have "set (map name ds) = name ` set ?raw" by (simp add: ds set_array_sort)
  also have "\<dots> = set (map name ?raw)" by simp
  also have "\<dots> = set (map_keys A) \<union> set (map_keys B)"
    by (simp only: names set_new_Set set_append)
  finally show "set (map name ds) = set (map_keys A) \<union> set (map_keys B)" .
  show "set ds = (\<Union>n \<in> set (map_keys A) \<union> set (map_keys B). set (pushed A B n))"
    by (simp add: ds set_array_sort set_new_Set)
qed

subsection \<open>The differ in the store computes the same and writes to its array only\<close>




subsection \<open>The entry of a name\<close>

lemma diff_of_Some: "diff_of ds n = Some d \<Longrightarrow> d \<in> set ds \<and> name d = n"
  by (auto simp: diff_of_def find_Some_iff)

lemma diff_of_member:
  "distinct (map name ds) \<Longrightarrow> d \<in> set ds \<Longrightarrow> diff_of ds (name d) = Some d"
  by (induction ds) (auto simp: diff_of_def)

lemma diff_of_None: "(diff_of ds n = None) = (n \<notin> name ` set ds)"
  by (auto simp: diff_of_def find_None_iff)

lemma compareRules_diff_of:
  assumes "compareRules cmp A B = Inr ds" "pushed A B n = [d]"
  shows "diff_of ds n = Some d"
proof -
  from assms(1) have ok: "stringifiable A B" by (auto simp: compareRules_eq split: if_splits)
  have "pushed A B n = []" if "n \<notin> set (map_keys A) \<union> set (map_keys B)"
    using that by (simp add: pushed_neither map_get_None_iff)
  with assms(2) have n: "n \<in> set (map_keys A) \<union> set (map_keys B)" by auto
  from pushed_names [OF both_stringifiable_of [OF ok], of n] n assms(2)
  have nm: "name d = n" by simp
  from assms(2) have "d \<in> set (pushed A B n)" by simp
  with n have "d \<in> set ds" unfolding compareRules_names(3) [OF assms(1)] by blast
  with compareRules_names(1) [OF assms(1)] nm show ?thesis using diff_of_member by blast
qed

lemma compareRules_diff_of_None:
  assumes "compareRules cmp A B = Inr ds" "pushed A B n = []"
  shows "diff_of ds n = None"
proof -
  from assms(1) have ok: "stringifiable A B" by (auto simp: compareRules_eq split: if_splits)
  from pushed_names [OF both_stringifiable_of [OF ok], of n] assms(2)
  have "n \<notin> set (map_keys A) \<union> set (map_keys B)" by (auto split: if_splits)
  then have "n \<notin> set (map name ds)" unfolding compareRules_names(2) [OF assms(1)] .
  then show ?thesis by (simp add: diff_of_None)
qed

subsection \<open>Changing sides\<close>

lemma both_stringifiable_swap: "both_stringifiable B A n = both_stringifiable A B n"
  by (auto simp: both_stringifiable_def split: option.splits)

lemma stringifiable_swap: "stringifiable B A = stringifiable A B"
  by (simp add: stringifiable_iff both_stringifiable_swap)

lemma pushed_swap:
  assumes "both_stringifiable A B n"
  shows "pushed B A n = map mirror (pushed A B n)"
proof (cases "map_get A n")
  case None
  note a = this
  show ?thesis
  proof (cases "map_get B n")
    case None
    with a show ?thesis by (simp add: pushed_neither)
  next
    case (Some f)
    with a show ?thesis by (simp add: pushed_added pushed_removed mirror_def)
  qed
next
  case (Some l)
  note a = this
  show ?thesis
  proof (cases "map_get B n")
    case None
    with a show ?thesis by (simp add: pushed_added pushed_removed mirror_def)
  next
    case (Some f)
    with a assms have ok: "no_BigInt_list (options l)" "no_BigInt_list (options f)"
      by (simp_all add: both_stringifiable_def)
    show ?thesis
      unfolding pushed_both [OF a Some ok] pushed_both [OF Some a ok(2,1)]
      by (auto simp: mirror_def)
  qed
qed

subsection \<open>Extraction\<close>

lemma map_get_map_set:
  "map_get (map_set k v m) k' = (if k' = k then Some v else map_get m k')"
  by (induction m) (auto simp: map_get_def)

lemma map_get_extract_entry:
  "map_get (extract_entry m (k, c)) n =
     (if n = k
      then Some \<lparr>severity = (case c of Bare s \<Rightarrow> s | Tuple s rest \<Rightarrow> s),
                 options = (case c of Bare s \<Rightarrow> [] | Tuple s rest \<Rightarrow> rest),
                 source = getRuleSource k\<rparr>
      else map_get m n)"
  by (simp add: map_get_map_set Let_def)

lemma map_get_foldl_other:
  "n \<notin> fst ` set es \<Longrightarrow> map_get (foldl extract_entry m es) n = map_get m n"
proof (induction es arbitrary: m)
  case Nil
  then show ?case by simp
next
  case (Cons e es)
  obtain k c where e: "e = (k, c)" by (cases e)
  with Cons.prems have nk: "n \<noteq> k" and rest: "n \<notin> fst ` set es" by auto
  have "map_get (foldl extract_entry m (e # es)) n
        = map_get (foldl extract_entry (extract_entry m (k, c)) es) n"
    by (simp add: e del: extract_entry.simps)
  also have "\<dots> = map_get (extract_entry m (k, c)) n" by (rule Cons.IH [OF rest])
  also have "\<dots> = map_get m n"
    using nk by (simp add: map_get_extract_entry del: extract_entry.simps)
  finally show ?case .
qed

lemma map_get_foldl_declared:
  assumes "distinct (map fst es)" "(n, c) \<in> set es"
  shows "map_get (foldl extract_entry m es) n =
     Some \<lparr>severity = (case c of Bare s \<Rightarrow> s | Tuple s rest \<Rightarrow> s),
           options = (case c of Bare s \<Rightarrow> [] | Tuple s rest \<Rightarrow> rest),
           source = getRuleSource n\<rparr>"
  using assms
proof (induction es arbitrary: m)
  case Nil
  then show ?case by simp
next
  case (Cons e es)
  obtain k c' where e: "e = (k, c')" by (cases e)
  show ?case
  proof (cases "(n, c) = e")
    case True
    with e have kc: "k = n" "c' = c" by simp_all
    from Cons.prems(1) e kc have rest: "n \<notin> fst ` set es" by simp
    have "map_get (foldl extract_entry m (e # es)) n
          = map_get (foldl extract_entry (extract_entry m (n, c)) es) n"
      by (simp add: e kc del: extract_entry.simps)
    also have "\<dots> = map_get (extract_entry m (n, c)) n"
      by (rule map_get_foldl_other [OF rest])
    also have "\<dots> = Some \<lparr>severity = (case c of Bare s \<Rightarrow> s | Tuple s rest \<Rightarrow> s),
           options = (case c of Bare s \<Rightarrow> [] | Tuple s rest \<Rightarrow> rest),
           source = getRuleSource n\<rparr>"
      by (simp add: map_get_extract_entry del: extract_entry.simps)
    finally show ?thesis .
  next
    case False
    with Cons.prems have "(n, c) \<in> set es" "distinct (map fst es)" by auto
    from Cons.IH [OF this(2,1), of "extract_entry m e"] show ?thesis by simp
  qed
qed

lemma extractRules_declared:
  assumes "distinct (map fst es)" "(n, c) \<in> set es"
  shows "map_get (extractRules \<lparr>rules = Some es\<rparr>) n =
     Some \<lparr>severity = (case c of Bare s \<Rightarrow> s | Tuple s rest \<Rightarrow> s),
           options = (case c of Bare s \<Rightarrow> [] | Tuple s rest \<Rightarrow> rest),
           source = getRuleSource n\<rparr>"
  using map_get_foldl_declared [OF assms] by (simp add: extractRules_def)

subsection \<open>Provenance\<close>

lemma without_source_keys: "map fst (without_source A) = map_keys A"
  by (induction A) (auto simp: without_source_def map_keys_def)

lemma without_source_get:
  "map_of (without_source A) n = map_option (\<lambda>r. (severity r, options r)) (map_get A n)"
  by (induction A) (auto simp: without_source_def map_get_def)

lemma visit_rule_without_source:
  assumes "without_source A = without_source A'" "without_source B = without_source B'"
  shows "visit_rule A B diffs n = visit_rule A' B' diffs n"
proof -
  have a: "map_option (\<lambda>r. (severity r, options r)) (map_get A n)
         = map_option (\<lambda>r. (severity r, options r)) (map_get A' n)"
    using assms(1) without_source_get [of A n] without_source_get [of A' n] by simp
  have b: "map_option (\<lambda>r. (severity r, options r)) (map_get B n)
         = map_option (\<lambda>r. (severity r, options r)) (map_get B' n)"
    using assms(2) without_source_get [of B n] without_source_get [of B' n] by simp
  show ?thesis
  proof (cases "map_get A n")
    case None
    note an = this
    with a have a': "map_get A' n = None" by simp
    show ?thesis
    proof (cases "map_get B n")
      case None
      with b have "map_get B' n = None" by simp
      with None an a' show ?thesis by (simp add: visit_rule_def)
    next
      case (Some f)
      with b obtain f'
        where "map_get B' n = Some f'" "severity f' = severity f" "options f' = options f"
        by (cases "map_get B' n") auto
      with Some an a' show ?thesis by (simp add: visit_rule_def)
    qed
  next
    case (Some l)
    with a obtain l'
      where l': "map_get A' n = Some l'" "severity l' = severity l" "options l' = options l"
      by (cases "map_get A' n") auto
    show ?thesis
    proof (cases "map_get B n")
      case None
      with b have "map_get B' n = None" by simp
      with None Some l' show ?thesis by (simp add: visit_rule_def)
    next
      case f: (Some f)
      with b obtain f'
        where "map_get B' n = Some f'" "severity f' = severity f" "options f' = options f"
        by (cases "map_get B' n") auto
      with f Some l' show ?thesis by (simp add: visit_rule_def split: sum.splits)
    qed
  qed
qed

lemma forEach_rule_without_source:
  assumes "without_source A = without_source A'" "without_source B = without_source B'"
  shows "forEach_rule A B diffs ns = forEach_rule A' B' diffs ns"
  by (induction ns arbitrary: diffs)
     (simp_all add: visit_rule_without_source [OF assms] split: sum.splits)

subsection \<open>The examples\<close>

lemmas eval_defs = compareRules_def new_Set_def set_add_def map_keys_def map_get_def
  visit_rule_def array_sort_def JSON_stringify_def rule_with_def Let_def

lemma stringifiable_small: "stringifiable small_local small_reference"
  by (simp add: stringifiable_def both_stringifiable_def small_local_def small_reference_def
      rule_with_def map_keys_def map_get_def)

lemma stringifiable_foo: "stringifiable foo_local foo_reference"
  by (simp add: stringifiable_def both_stringifiable_def foo_local_def foo_reference_def
      rule_with_def map_keys_def map_get_def)

lemma consistent_caseless: "consistent_comparator caseless_compare"
  unfolding caseless_compare_def by (rule consistent_compare_by)

section \<open>The claims\<close>

text \<open>
  Throughout, a statement about the output of the differ is made for the pairs of
  mappings on which it has an output, \<open>stringifiable localRules functypeRules\<close>, and
  says that the output exists; the statement on when the differ returns treats the
  other pairs.
\<close>

text \<open>
  C1. Severities that are synonyms, such as \<^verbatim>\<open>"error"\<close> and \<^verbatim>\<open>2\<close>, with the same
  options, are to be classified \<open>Same\<close>. The differ compares the two stored severities
  with \<^verbatim>\<open>!==\<close> and does not normalise them: for local \<^verbatim>\<open>{"no-var": "error"}\<close> and
  reference \<^verbatim>\<open>{"no-var": 2}\<close> the entry is \<open>Different\<close>, although \<^verbatim>\<open>formatSeverity\<close>
  prints both sides of this conflict as \<^verbatim>\<open>error\<close>.
\<close>

theorem compareRules_error_against_2:
  "compareRules ordinal_compare
     (extractRules \<lparr>rules = Some [(''no-var'', Bare Str_error)]\<rparr>)
     (extractRules \<lparr>rules = Some [(''no-var'', Bare Num_2)]\<rparr>)
   = Inr [\<lparr>name = ''no-var'', status = Different,
           localSeverity = Some Str_error, functypeSeverity = Some Num_2,
           localOptions = Some [], functypeOptions = Some []\<rparr>]
   \<and> formatSeverity Str_error = formatSeverity Num_2"
  by (simp add: eval_defs extractRules_def)

text \<open>
  C2. Every rule name of the union of the two key sets appears exactly once in the
  output, and no other name appears: the names of the output are pairwise different,
  they are the names of the union, and a name is the name of one entry if it is in the
  union and of none otherwise. An entry has one \<open>status\<close>, a value of the four-valued
  type \<^typ>\<open>DiffStatus\<close>.
\<close>

theorem compareRules_every_name_once:
  assumes "stringifiable A B"
  shows "\<exists>ds. compareRules cmp A B = Inr ds
           \<and> distinct (map name ds)
           \<and> set (map name ds) = set (map_keys A) \<union> set (map_keys B)
           \<and> (\<forall>n. length (filter (\<lambda>d. name d = n) ds)
                    = (if n \<in> set (map_keys A) \<union> set (map_keys B) then 1 else 0))"
proof -
  from assms obtain ds where ds: "compareRules cmp A B = Inr ds"
    by (simp add: compareRules_eq)
  note d = compareRules_names(1) [OF ds] and s = compareRules_names(2) [OF ds]
  have "length (filter (\<lambda>d. name d = n) ds)
        = (if n \<in> set (map_keys A) \<union> set (map_keys B) then 1 else 0)" for n
    using count_by_key [OF d, of n] s by simp
  with ds d s show ?thesis by blast
qed

theorem compareRules_every_name_once_witness:
  "stringifiable small_local small_reference \<and>
   (\<exists>ds. compareRules ordinal_compare small_local small_reference = Inr ds
      \<and> distinct (map name ds)
      \<and> set (map name ds) = set (map_keys small_local) \<union> set (map_keys small_reference)
      \<and> (\<forall>n. length (filter (\<lambda>d. name d = n) ds)
               = (if n \<in> set (map_keys small_local) \<union> set (map_keys small_reference)
                  then 1 else 0)))"
  using compareRules_every_name_once [OF stringifiable_small, of ordinal_compare]
    stringifiable_small
  by simp

text \<open>
  C3, as amended. The output is sorted ascending by rule name in the order of the
  comparator the sort is given, \<^verbatim>\<open>localeCompare\<close> of the host, whenever that comparator
  is consistent (any two names are comparable, and it is transitive). The order is the
  host's collation, not the ordinal comparison of the names.
\<close>

theorem compareRules_sorted_by_localeCompare:
  assumes "consistent_comparator cmp" "stringifiable A B"
  shows "\<exists>ds. compareRules cmp A B = Inr ds \<and> sorted_by_name cmp ds"
proof -
  let ?c = "\<lambda>a b. cmp (name a) (name b)"
  have tot: "\<And>a b. ?c a b \<le> 0 \<or> ?c b a \<le> 0"
    using assms(1) by (simp add: consistent_comparator_def)
  have trans: "\<And>a b c. ?c a b \<le> 0 \<Longrightarrow> ?c b c \<le> 0 \<Longrightarrow> ?c a c \<le> 0"
    using assms(1) unfolding consistent_comparator_def by blast
  have "sorted_wrt (\<lambda>a b. ?c a b \<le> 0) (array_sort ?c xs)" for xs :: "RuleDiff list"
  proof (rule sorted_array_sort)
    fix a b :: RuleDiff
    show "?c a b \<le> 0 \<or> ?c b a \<le> 0" by (rule tot)
  next
    fix a b c :: RuleDiff
    assume "?c a b \<le> 0" "?c b c \<le> 0"
    then show "?c a c \<le> 0" by (rule trans)
  qed
  with assms(2) show ?thesis by (simp add: compareRules_eq sorted_by_name_def)
qed

theorem compareRules_sorted_by_localeCompare_witness:
  "consistent_comparator caseless_compare \<and> stringifiable small_local small_reference \<and>
   (\<exists>ds. compareRules caseless_compare small_local small_reference = Inr ds
      \<and> sorted_by_name caseless_compare ds)"
  using compareRules_sorted_by_localeCompare [OF consistent_caseless stringifiable_small]
    consistent_caseless stringifiable_small
  by simp

text \<open>
  The claim as worded (sorted by a locale-independent ordinal comparison) fails where
  the collation departs from the character codes. \<^verbatim>\<open>"a".localeCompare("B")\<close> is
  negative, as it is for \<open>caseless_compare\<close>: for local \<^verbatim>\<open>{"B": "error"}\<close> and reference
  \<^verbatim>\<open>{"a": "error"}\<close> the output lists \<^verbatim>\<open>a\<close> before \<^verbatim>\<open>B\<close>, and the ordinal comparison
  puts \<^verbatim>\<open>B\<close> first.
\<close>

theorem compareRules_not_ordinal_sorted:
  "compareRules caseless_compare [rule_with ''B'' Str_error []] [rule_with ''a'' Str_error []]
   = Inr [\<lparr>name = ''a'', status = Added, localSeverity = None,
           functypeSeverity = Some Str_error, localOptions = None, functypeOptions = Some []\<rparr>,
          \<lparr>name = ''B'', status = Removed, localSeverity = Some Str_error,
           functypeSeverity = None, localOptions = Some [], functypeOptions = None\<rparr>]
   \<and> \<not> sorted_by_name ordinal_compare
        [\<lparr>name = ''a'', status = Added, localSeverity = None,
           functypeSeverity = Some Str_error, localOptions = None, functypeOptions = Some []\<rparr>,
          \<lparr>name = ''B'', status = Removed, localSeverity = Some Str_error,
           functypeSeverity = None, localOptions = Some [], functypeOptions = None\<rparr>]"
  by (simp add: eval_defs caseless_compare_def letter_rank_def ordinal_compare_def
      sorted_by_name_def)

text \<open>
  C4, as amended. For a rule that both mappings declare the status is \<open>Same\<close> or
  \<open>Different\<close>. It is \<open>Same\<close> only if the two severities mean the same (they are
  printed alike by \<^verbatim>\<open>formatSeverity\<close>) and the two options arrays have the same
  serialisation by \<^verbatim>\<open>JSON.stringify\<close>, and it is \<open>Same\<close> whenever the two severities are
  the same value and the serialisations are equal; a \<open>Different\<close> entry carries the
  local and the reference options. For plain JSON options the serialisations are equal
  exactly when the two arrays are equal as values: element by element in order, nested
  arrays and objects by their contents, objects with their properties in order. The
  status of two synonymous severities in different encodings is left open here.
\<close>

theorem compareRules_same_different:
  assumes "map_get A n = Some l" "map_get B n = Some f" "stringifiable A B"
  shows "\<exists>ds d. compareRules cmp A B = Inr ds \<and> diff_of ds n = Some d
     \<and> (status d = Same \<or> status d = Different)
     \<and> (status d = Same \<longrightarrow>
          formatSeverity (severity l) = formatSeverity (severity f)
          \<and> JSON_stringify (options l) = JSON_stringify (options f))
     \<and> (severity l = severity f \<and> JSON_stringify (options l) = JSON_stringify (options f)
          \<longrightarrow> status d = Same)
     \<and> (status d = Different \<longrightarrow>
          localOptions d = Some (options l) \<and> functypeOptions d = Some (options f))
     \<and> (plain_list (options l) \<and> plain_list (options f) \<longrightarrow>
          (JSON_stringify (options l) = JSON_stringify (options f)
           \<longleftrightarrow> options l = options f))"
proof -
  from assms(3) obtain ds where ds: "compareRules cmp A B = Inr ds"
    by (simp add: compareRules_eq)
  from both_stringifiable_of [OF assms(3), of n] assms(1,2)
  have ok: "no_BigInt_list (options l)" "no_BigInt_list (options f)"
    by (simp_all add: both_stringifiable_def)
  let ?d = "if severity l \<noteq> severity f
               \<or> JSON_stringify (options l) \<noteq> JSON_stringify (options f)
      then \<lparr>name = n, status = Different, localSeverity = Some (severity l),
             functypeSeverity = Some (severity f), localOptions = Some (options l),
             functypeOptions = Some (options f)\<rparr>
      else \<lparr>name = n, status = Same, localSeverity = Some (severity l),
             functypeSeverity = Some (severity f), localOptions = None,
             functypeOptions = None\<rparr>"
  have "pushed A B n = [?d]" by (rule pushed_both [OF assms(1,2) ok])
  then have "diff_of ds n = Some ?d" by (rule compareRules_diff_of [OF ds])
  moreover have "status ?d = Same \<or> status ?d = Different" by simp
  moreover have "status ?d = Same \<longrightarrow>
      formatSeverity (severity l) = formatSeverity (severity f)
      \<and> JSON_stringify (options l) = JSON_stringify (options f)"
    by simp
  moreover have "severity l = severity f
      \<and> JSON_stringify (options l) = JSON_stringify (options f) \<longrightarrow> status ?d = Same"
    by simp
  moreover have "status ?d = Different \<longrightarrow>
      localOptions ?d = Some (options l) \<and> functypeOptions ?d = Some (options f)"
    by simp
  moreover have "plain_list (options l) \<and> plain_list (options f) \<longrightarrow>
      (JSON_stringify (options l) = JSON_stringify (options f) \<longleftrightarrow> options l = options f)"
    by (simp add: stringify_plain_inj)
  ultimately show ?thesis using ds by blast
qed

theorem compareRules_same_different_witness:
  "\<exists>ds d. compareRules ordinal_compare foo_local foo_reference = Inr ds
      \<and> diff_of ds ''foo'' = Some d \<and> status d = Different
      \<and> localOptions d = Some [JObject [(''a'', JNumber 1)]]
      \<and> functypeOptions d = Some [JObject [(''a'', JNumber 2)]]"
proof -
  let ?l = "\<lparr>severity = Str_error, options = [JObject [(''a'', JNumber 1)]],
             source = getRuleSource ''foo''\<rparr>"
  let ?f = "\<lparr>severity = Str_error, options = [JObject [(''a'', JNumber 2)]],
             source = getRuleSource ''foo''\<rparr>"
  have l: "map_get foo_local ''foo'' = Some ?l"
    by (simp add: foo_local_def rule_with_def map_get_def)
  have f: "map_get foo_reference ''foo'' = Some ?f"
    by (simp add: foo_reference_def rule_with_def map_get_def)
  have p: "plain_list (options ?l)" "plain_list (options ?f)" by simp_all
  have ne: "options ?l \<noteq> options ?f" by simp
  from compareRules_same_different [OF l f stringifiable_foo, of ordinal_compare] p ne
  show ?thesis by (elim exE conjE) (rule exI, rule exI, auto)
qed

text \<open>
  The claim as worded (options compared by their structure) fails where the
  serialisation says less than the value: \<^verbatim>\<open>JSON.stringify\<close> leaves a property out
  whose value is \<^verbatim>\<open>undefined\<close>, so local \<^verbatim>\<open>{"foo": ["error", {a: undefined}]}\<close> and
  reference \<^verbatim>\<open>{"foo": ["error", {}]}\<close>, whose options differ, are \<open>Same\<close>.
\<close>

theorem compareRules_undefined_property_same:
  "compareRules ordinal_compare
     [rule_with ''foo'' Str_error [JObject [(''a'', JUndefined)]]]
     [rule_with ''foo'' Str_error [JObject []]]
   = Inr [\<lparr>name = ''foo'', status = Same,
           localSeverity = Some Str_error, functypeSeverity = Some Str_error,
           localOptions = None, functypeOptions = None\<rparr>]
   \<and> [JObject [(''a'', JUndefined)]] \<noteq> [JObject []]"
  by (simp add: eval_defs)

text \<open>
  C5. A bare severity and the one-element array of that severity are extracted to the
  same entry, with the empty options sequence; when one configuration declares a rule
  in one of the two forms and the other configuration in one of them, with that
  severity, the rule is \<open>Same\<close>.
\<close>

theorem bare_severity_as_singleton:
  assumes "c1 = Bare s \<or> c1 = Tuple s []" "c2 = Bare s \<or> c2 = Tuple s []"
    and "distinct (map fst es1)" "(n, c1) \<in> set es1"
    and "distinct (map fst es2)" "(n, c2) \<in> set es2"
    and "stringifiable (extractRules \<lparr>rules = Some es1\<rparr>) (extractRules \<lparr>rules = Some es2\<rparr>)"
  shows "extract_entry m (n, Bare s) = extract_entry m (n, Tuple s [])
    \<and> map_get (extractRules \<lparr>rules = Some es1\<rparr>) n
        = Some \<lparr>severity = s, options = [], source = getRuleSource n\<rparr>
    \<and> map_get (extractRules \<lparr>rules = Some es2\<rparr>) n
        = Some \<lparr>severity = s, options = [], source = getRuleSource n\<rparr>
    \<and> (\<exists>ds d. compareRules cmp (extractRules \<lparr>rules = Some es1\<rparr>)
                   (extractRules \<lparr>rules = Some es2\<rparr>) = Inr ds
          \<and> diff_of ds n = Some d \<and> status d = Same)"
proof -
  let ?A = "extractRules \<lparr>rules = Some es1\<rparr>" and ?B = "extractRules \<lparr>rules = Some es2\<rparr>"
  let ?r = "\<lparr>severity = s, options = [], source = getRuleSource n\<rparr>"
  have same: "extract_entry m (n, Bare s) = extract_entry m (n, Tuple s [])" by simp
  have a: "map_get ?A n = Some ?r"
    using extractRules_declared [OF assms(3,4)] assms(1) by auto
  have b: "map_get ?B n = Some ?r"
    using extractRules_declared [OF assms(5,6)] assms(2) by auto
  from assms(7) obtain ds where ds: "compareRules cmp ?A ?B = Inr ds"
    by (simp add: compareRules_eq)
  have "pushed ?A ?B n = [\<lparr>name = n, status = Same, localSeverity = Some s,
          functypeSeverity = Some s, localOptions = None, functypeOptions = None\<rparr>]"
    using pushed_both [OF a b] by simp
  from compareRules_diff_of [OF ds this] ds same a b show ?thesis by simp
qed

theorem bare_severity_as_singleton_witness:
  "\<exists>ds d. compareRules ordinal_compare
      (extractRules \<lparr>rules = Some [(''no-var'', Bare Str_error), (''eqeqeq'', Bare Str_warn)]\<rparr>)
      (extractRules \<lparr>rules = Some [(''eqeqeq'', Tuple Str_warn [])]\<rparr>) = Inr ds
    \<and> diff_of ds ''eqeqeq'' = Some d \<and> status d = Same"
proof -
  let ?es1 = "[(''no-var'', Bare Str_error), (''eqeqeq'', Bare Str_warn)]"
  let ?es2 = "[(''eqeqeq'', Tuple Str_warn [])]"
  have s: "stringifiable (extractRules \<lparr>rules = Some ?es1\<rparr>)
             (extractRules \<lparr>rules = Some ?es2\<rparr>)"
    by (simp add: stringifiable_def both_stringifiable_def extractRules_def
        map_keys_def map_get_def)
  have "Bare Str_warn = Bare Str_warn \<or> Bare Str_warn = Tuple Str_warn []"
       "Tuple Str_warn [] = Bare Str_warn \<or> Tuple Str_warn [] = Tuple Str_warn []"
       "distinct (map fst ?es1)" "(''eqeqeq'', Bare Str_warn) \<in> set ?es1"
       "distinct (map fst ?es2)" "(''eqeqeq'', Tuple Str_warn []) \<in> set ?es2"
    by simp_all
  from bare_severity_as_singleton [OF this s, of "[]" ordinal_compare]
  show ?thesis by blast
qed

text \<open>
  C6. With the two mappings exchanged, the entry of every rule name is the mirror image
  of its entry before: \<open>Added\<close> and \<open>Removed\<close> change places, \<open>Same\<close> and \<open>Different\<close>
  stay, and the local fields hold what the reference fields held.
\<close>

theorem compareRules_swap_mirror:
  assumes "stringifiable A B"
  shows "\<exists>ds ds'. compareRules cmp A B = Inr ds \<and> compareRules cmp B A = Inr ds'
           \<and> (\<forall>n. diff_of ds' n = map_option mirror (diff_of ds n))"
proof -
  from assms obtain ds where ds: "compareRules cmp A B = Inr ds"
    by (simp add: compareRules_eq)
  from assms obtain ds' where ds': "compareRules cmp B A = Inr ds'"
    by (simp add: compareRules_eq stringifiable_swap [of B A])
  have "diff_of ds' n = map_option mirror (diff_of ds n)" for n
  proof -
    have bs: "both_stringifiable A B n" by (rule both_stringifiable_of [OF assms])
    from pushed_at_most_one [OF bs] show ?thesis
    proof
      assume e: "pushed A B n = []"
      then have "pushed B A n = []" by (simp add: pushed_swap [OF bs])
      with e show ?thesis
        by (simp add: compareRules_diff_of_None [OF ds] compareRules_diff_of_None [OF ds'])
    next
      assume "\<exists>d. pushed A B n = [d]"
      then obtain d where d: "pushed A B n = [d]" ..
      then have "pushed B A n = [mirror d]" by (simp add: pushed_swap [OF bs])
      with d show ?thesis
        by (simp add: compareRules_diff_of [OF ds] compareRules_diff_of [OF ds'])
    qed
  qed
  with ds ds' show ?thesis by blast
qed

theorem compareRules_swap_mirror_witness:
  "stringifiable small_local small_reference \<and>
   (\<exists>ds ds'. compareRules ordinal_compare small_local small_reference = Inr ds
      \<and> compareRules ordinal_compare small_reference small_local = Inr ds'
      \<and> (\<forall>n. diff_of ds' n = map_option mirror (diff_of ds n)))"
  using compareRules_swap_mirror [OF stringifiable_small, of ordinal_compare]
    stringifiable_small
  by simp

text \<open>
  C7. A rule name has an \<open>Added\<close> entry exactly when the local mapping lacks it and the
  reference mapping has it, and a \<open>Removed\<close> entry exactly when the local mapping has
  it and the reference mapping lacks it.
\<close>

theorem compareRules_added_removed_iff:
  assumes "stringifiable A B"
  shows "\<exists>ds. compareRules cmp A B = Inr ds
    \<and> (\<forall>n. ((\<exists>d \<in> set ds. name d = n \<and> status d = Added)
               \<longleftrightarrow> map_get A n = None \<and> map_get B n \<noteq> None)
           \<and> ((\<exists>d \<in> set ds. name d = n \<and> status d = Removed)
               \<longleftrightarrow> map_get A n \<noteq> None \<and> map_get B n = None))"
proof -
  from assms obtain ds where ds: "compareRules cmp A B = Inr ds"
    by (simp add: compareRules_eq)
  have mem: "(\<exists>d \<in> set ds. name d = n \<and> status d = s)
             \<longleftrightarrow> (\<exists>d. pushed A B n = [d] \<and> status d = s)" for n s
  proof
    assume "\<exists>d \<in> set ds. name d = n \<and> status d = s"
    then obtain d where d: "d \<in> set ds" "name d = n" "status d = s" by blast
    from diff_of_member [OF compareRules_names(1) [OF ds] d(1)] d(2)
    have f: "diff_of ds n = Some d" by simp
    from pushed_at_most_one [OF both_stringifiable_of [OF assms], of n]
    show "\<exists>d. pushed A B n = [d] \<and> status d = s"
    proof
      assume "pushed A B n = []"
      from compareRules_diff_of_None [OF ds this] f show ?thesis by simp
    next
      assume "\<exists>d. pushed A B n = [d]"
      then obtain d' where d': "pushed A B n = [d']" ..
      from compareRules_diff_of [OF ds d'] f have "d' = d" by simp
      with d' d(3) show ?thesis by simp
    qed
  next
    assume "\<exists>d. pushed A B n = [d] \<and> status d = s"
    then obtain d where d: "pushed A B n = [d]" "status d = s" by blast
    from diff_of_Some [OF compareRules_diff_of [OF ds d(1)]] d(2)
    show "\<exists>d \<in> set ds. name d = n \<and> status d = s" by blast
  qed
  have cases: "(\<exists>d. pushed A B n = [d] \<and> status d = Added)
                 \<longleftrightarrow> map_get A n = None \<and> map_get B n \<noteq> None"
              "(\<exists>d. pushed A B n = [d] \<and> status d = Removed)
                 \<longleftrightarrow> map_get A n \<noteq> None \<and> map_get B n = None" for n
  proof -
    have bs: "both_stringifiable A B n" by (rule both_stringifiable_of [OF assms])
    show "(\<exists>d. pushed A B n = [d] \<and> status d = Added)
                 \<longleftrightarrow> map_get A n = None \<and> map_get B n \<noteq> None"
      using bs
      by (cases "map_get A n"; cases "map_get B n")
         (simp_all add: pushed_neither pushed_added pushed_removed pushed_both
                        both_stringifiable_def)
    show "(\<exists>d. pushed A B n = [d] \<and> status d = Removed)
                 \<longleftrightarrow> map_get A n \<noteq> None \<and> map_get B n = None"
      using bs
      by (cases "map_get A n"; cases "map_get B n")
         (simp_all add: pushed_neither pushed_added pushed_removed pushed_both
                        both_stringifiable_def)
  qed
  from ds show ?thesis by (simp add: mem cases)
qed

theorem compareRules_added_removed_iff_witness:
  "stringifiable small_local small_reference \<and>
   (\<exists>ds. compareRules caseless_compare small_local small_reference = Inr ds
    \<and> (\<forall>n. ((\<exists>d \<in> set ds. name d = n \<and> status d = Added)
               \<longleftrightarrow> map_get small_local n = None \<and> map_get small_reference n \<noteq> None)
           \<and> ((\<exists>d \<in> set ds. name d = n \<and> status d = Removed)
               \<longleftrightarrow> map_get small_local n \<noteq> None \<and> map_get small_reference n = None)))"
  using compareRules_added_removed_iff [OF stringifiable_small, of caseless_compare]
    stringifiable_small
  by simp




text \<open>
  C9. When validation is switched on, loading the recommended profile with an invalid
  validation result throws the error the validator's constructor builds from that
  result; with a valid result it writes the title, each warning and an empty line when
  there are warnings, writes nothing when there are none, and the profile is exported.
\<close>

theorem load_recommended_validation:
  assumes "shouldValidate"
  shows "(\<not> isValid result \<longrightarrow>
            load_recommended shouldValidate result createValidationError
              = Inl (createValidationError result))
       \<and> (isValid result \<longrightarrow>
            load_recommended shouldValidate result createValidationError
              = Inr (if warnings result = [] then []
                     else [warnings_title] @ map (\<lambda>w. ''   '' @ w) (warnings result) @ [[]],
                     recommended))"
  using assms by (simp add: load_recommended_def Let_def)

theorem load_recommended_validation_witness:
  "load_recommended True missing_functional installCommand
     = Inl (Some ''pnpm add -D eslint-plugin-functional'')
   \<and> load_recommended True missing_prettier installCommand
     = Inr ([warnings_title, ''   eslint-plugin-prettier is not installed'', []], recommended)"
  using load_recommended_validation [of True missing_functional installCommand]
        load_recommended_validation [of True missing_prettier installCommand]
  by (simp add: missing_functional_def missing_prettier_def)

text \<open>
  C10. The output of the differ does not depend on the \<open>source\<close> labels: two pairs of
  mappings that agree on the names, severities and options of their rules, in order,
  have the same output, and so the same status for every rule name.
\<close>

theorem compareRules_ignores_source:
  assumes "without_source A = without_source A'" "without_source B = without_source B'"
  shows "compareRules cmp A B = compareRules cmp A' B'"
proof -
  from assms have "map_keys A = map_keys A'" "map_keys B = map_keys B'"
    using without_source_keys [of A] without_source_keys [of A']
          without_source_keys [of B] without_source_keys [of B'] by simp_all
  then show ?thesis
    by (simp add: compareRules_def forEach_rule_without_source [OF assms])
qed

theorem compareRules_ignores_source_witness:
  "compareRules ordinal_compare small_local small_reference
   = compareRules ordinal_compare
       [(''no-var'', \<lparr>severity = Str_error, options = [], source = ''my-plugin''\<rparr>),
        (''eqeqeq'', \<lparr>severity = Str_warn, options = [], source = ''''\<rparr>)]
       [(''prefer-const'', \<lparr>severity = Str_error, options = [], source = ''x''\<rparr>),
        (''no-var'', \<lparr>severity = Str_error, options = [], source = ''y''\<rparr>)]"
proof (rule compareRules_ignores_source)
  show "without_source small_local
      = without_source
         [(''no-var'', \<lparr>severity = Str_error, options = [], source = ''my-plugin''\<rparr>),
          (''eqeqeq'', \<lparr>severity = Str_warn, options = [], source = ''''\<rparr>)]"
    by (simp add: without_source_def small_local_def rule_with_def)
  show "without_source small_reference
      = without_source
         [(''prefer-const'', \<lparr>severity = Str_error, options = [], source = ''x''\<rparr>),
          (''no-var'', \<lparr>severity = Str_error, options = [], source = ''y''\<rparr>)]"
    by (simp add: without_source_def small_reference_def rule_with_def)
qed

end
